theory Spec2Isabelle
  imports Main
begin

section \<open>Strings\<close>

text \<open>
  A JavaScript string is modelled as a \<^typ>\<open>string\<close>: a list of characters, each a code
  unit below 256. The whitespace that \<^verbatim>\<open>String.prototype.trim\<close> removes is, among
  those code units, TAB, LF, VT, FF, CR, SPACE and NBSP.
\<close>

definition NL :: char where
  "NL = CHR 0x0A"

definition QUOTE :: char where
  "QUOTE = CHR 0x27"

definition isWhiteSpace :: "char \<Rightarrow> bool" where
  "isWhiteSpace c =
     (c = CHR 0x09 \<or> c = CHR 0x0A \<or> c = CHR 0x0B \<or> c = CHR 0x0C \<or> c = CHR 0x0D
      \<or> c = CHR 0x20 \<or> c = CHR 0xA0)"

definition trim :: "string \<Rightarrow> string" where
  "trim s = rev (dropWhile isWhiteSpace (rev (dropWhile isWhiteSpace s)))"

text \<open>\<^verbatim>\<open>s.startsWith(p)\<close> and \<^verbatim>\<open>s.substring(n)\<close> are \<open>startsWith s p\<close> and \<open>drop n s\<close>.\<close>

definition startsWith :: "string \<Rightarrow> string \<Rightarrow> bool" where
  "startsWith s p = (take (length p) s = p)"

text \<open>\<^verbatim>\<open>s.split('\n')\<close>: never empty, \<^verbatim>\<open>"".split('\n')\<close> is \<^verbatim>\<open>[""]\<close>.\<close>

fun split_nl :: "string \<Rightarrow> string list" where
  "split_nl [] = [[]]"
| "split_nl (c # cs) =
     (if c = NL then [] # split_nl cs
      else (case split_nl cs of
              [] \<Rightarrow> [[c]]
            | l # ls \<Rightarrow> (c # l) # ls))"

text \<open>\<^verbatim>\<open>xs.join('\n')\<close>.\<close>

fun join_nl :: "string list \<Rightarrow> string" where
  "join_nl [] = []"
| "join_nl [x] = x"
| "join_nl (x # y # ys) = x @ NL # join_nl (y # ys)"

section \<open>Errors\<close>

text \<open>
  \<^verbatim>\<open>createError(message, status)\<close> builds an \<^verbatim>\<open>Error\<close> carrying the message and the
  status; the hint is never passed. \<open>TypeError\<close> stands for the runtime's exception on a
  method call on \<^verbatim>\<open>undefined\<close> (an array read out of range).
\<close>

datatype error = ApplyPatchError string nat | TypeError

definition createError :: "string \<Rightarrow> nat \<Rightarrow> error" where
  "createError message status = ApplyPatchError message status"

section \<open>Line matcher: \<^verbatim>\<open>seekSequence\<close>\<close>

text \<open>The exact-match loop over \<open>j\<close>, from \<open>j\<close> on: false at the first differing line.\<close>

function exactLoop :: "string list \<Rightarrow> string list \<Rightarrow> nat \<Rightarrow> nat \<Rightarrow> bool" where
  "exactLoop lines pattern i j =
     (if j < length pattern then
        (if lines ! (i + j) \<noteq> pattern ! j then False
         else exactLoop lines pattern i (j + 1))
      else True)"
  by pat_completeness auto
termination
  by (relation "measure (\<lambda>(lines, pattern, i, j). length pattern - j)") auto

text \<open>The trimmed-match loop over \<open>j\<close>.\<close>

function trimmedLoop :: "string list \<Rightarrow> string list \<Rightarrow> nat \<Rightarrow> nat \<Rightarrow> bool" where
  "trimmedLoop lines pattern i j =
     (if j < length pattern then
        (if trim (lines ! (i + j)) \<noteq> trim (pattern ! j) then False
         else trimmedLoop lines pattern i (j + 1))
      else True)"
  by pat_completeness auto
termination
  by (relation "measure (\<lambda>(lines, pattern, i, j). length pattern - j)") auto

text \<open>
  The loop over candidate positions \<open>i\<close>. It is entered only when the pattern is no
  longer than \<open>lines\<close>, so the subtraction in its bound is the source's.
\<close>

function seekLoop :: "string list \<Rightarrow> string list \<Rightarrow> nat \<Rightarrow> nat option" where
  "seekLoop lines pattern i =
     (if i \<le> length lines - length pattern then
        (if exactLoop lines pattern i 0 then Some i
         else if trimmedLoop lines pattern i 0 then Some i
         else seekLoop lines pattern (i + 1))
      else None)"
  by pat_completeness auto
termination
  by (relation "measure (\<lambda>(lines, pattern, i). Suc (length lines - length pattern) - i)") auto

definition seekSequence :: "string list \<Rightarrow> string list \<Rightarrow> nat \<Rightarrow> nat option" where
  "seekSequence lines pattern start =
     (if length pattern = 0 then Some start
      else if length pattern > length lines then None
      else seekLoop lines pattern start)"

declare exactLoop.simps [simp del] trimmedLoop.simps [simp del] seekLoop.simps [simp del]

subsection \<open>What a match is, in the words of the specification\<close>

text \<open>
  Every pattern line equals the corresponding line of the haystack at position \<open>i\<close>,
  exactly, or after both are trimmed; the position lies inside the haystack.
\<close>

definition exactAt :: "string list \<Rightarrow> string list \<Rightarrow> nat \<Rightarrow> bool" where
  "exactAt lines pattern i = (take (length pattern) (drop i lines) = pattern)"

definition trimmedAt :: "string list \<Rightarrow> string list \<Rightarrow> nat \<Rightarrow> bool" where
  "trimmedAt lines pattern i =
     (map trim (take (length pattern) (drop i lines)) = map trim pattern)"

definition matchesAt :: "string list \<Rightarrow> string list \<Rightarrow> nat \<Rightarrow> bool" where
  "matchesAt lines pattern i =
     (i + length pattern \<le> length lines \<and> (exactAt lines pattern i \<or> trimmedAt lines pattern i))"

section \<open>Data model\<close>

record UpdateFileChunk =
  changeContext :: "string option"
  oldLines :: "string list"
  newLines :: "string list"
  isEndOfFile :: bool

datatype Hunk =
  Add string string
  | Delete string
  | Update string "string option" "UpdateFileChunk list"

section \<open>Applier: \<^verbatim>\<open>applyUpdateChunks\<close>\<close>

text \<open>A queued replacement \<^verbatim>\<open>{ start, length, newLines }\<close>.\<close>

record Replacement =
  r_start :: nat
  r_length :: nat
  r_newLines :: "string list"

text \<open>
  The file's text as lines: split at newlines, one trailing empty line popped. The text
  itself is what \<^verbatim>\<open>fs.promises.readFile\<close> returned, a parameter here.
\<close>

definition fileLines :: "string \<Rightarrow> string list" where
  "fileLines content =
     (let lines = split_nl content
      in if lines \<noteq> [] \<and> last lines = [] then butlast lines else lines)"

text \<open>
  The cursor after the context step. \<^verbatim>\<open>if (chunk.changeContext)\<close> is JavaScript's
  truthiness test: an absent hint and the empty string both skip the search.
\<close>

definition contextCursor :: "string list \<Rightarrow> UpdateFileChunk \<Rightarrow> nat \<Rightarrow> nat" where
  "contextCursor lines chunk searchStart =
     (case changeContext chunk of
        None \<Rightarrow> searchStart
      | Some ctx \<Rightarrow>
          if ctx = [] then searchStart
          else (case seekSequence lines [ctx] searchStart of
                  Some contextIndex \<Rightarrow> contextIndex + 1
                | None \<Rightarrow> searchStart))"

text \<open>
  The pattern and the replacement lines of a chunk with old lines: a trailing empty
  pattern line is dropped unless the chunk is at the end of the file, and then a trailing
  empty replacement line too. A read of the last element of an empty array is
  \<^verbatim>\<open>undefined\<close>, which is not the empty string.
\<close>

definition chunkPattern :: "UpdateFileChunk \<Rightarrow> string list" where
  "chunkPattern chunk =
     (if oldLines chunk \<noteq> [] \<and> last (oldLines chunk) = [] \<and> \<not> isEndOfFile chunk then
        butlast (oldLines chunk)
      else oldLines chunk)"

definition chunkNewLines :: "UpdateFileChunk \<Rightarrow> string list" where
  "chunkNewLines chunk =
     (if oldLines chunk \<noteq> [] \<and> last (oldLines chunk) = [] \<and> \<not> isEndOfFile chunk then
        (if newLines chunk \<noteq> [] \<and> last (newLines chunk) = [] then butlast (newLines chunk)
         else newLines chunk)
      else newLines chunk)"

definition matchError :: "string list \<Rightarrow> error" where
  "matchError pattern =
     createError (''Failed to find expected lines:'' @ NL # join_nl pattern) 400"

text \<open>
  One turn of the loop over the chunks: from the cursor and the queue to the new cursor
  and queue, or the error thrown.
\<close>

definition processChunk ::
  "string list \<Rightarrow> UpdateFileChunk \<Rightarrow> nat \<times> Replacement list \<Rightarrow> error + nat \<times> Replacement list"
where
  "processChunk lines chunk st =
     (let searchStart = contextCursor lines chunk (fst st);
          replacements = snd st
      in if length (oldLines chunk) = 0 then
           Inr (searchStart,
                replacements @ [\<lparr>r_start = length lines, r_length = 0,
                                 r_newLines = newLines chunk\<rparr>])
         else
           (let pattern = chunkPattern chunk; newL = chunkNewLines chunk
            in case seekSequence lines pattern searchStart of
                 None \<Rightarrow> Inl (matchError pattern)
               | Some matchIndex \<Rightarrow>
                   Inr (matchIndex + length pattern,
                        replacements @ [\<lparr>r_start = matchIndex, r_length = length pattern,
                                         r_newLines = newL\<rparr>])))"

fun processChunks ::
  "string list \<Rightarrow> UpdateFileChunk list \<Rightarrow> nat \<times> Replacement list \<Rightarrow> error + nat \<times> Replacement list"
where
  "processChunks lines [] st = Inr st"
| "processChunks lines (chunk # rest) st =
     (case processChunk lines chunk st of
        Inl e \<Rightarrow> Inl e
      | Inr st' \<Rightarrow> processChunks lines rest st')"

text \<open>
  \<^verbatim>\<open>replacements.sort((a, b) => b.start - a.start)\<close>: a stable sort, descending in
  \<open>start\<close>; replacements with equal starts keep the order in which they were queued.
\<close>

definition sortReplacements :: "Replacement list \<Rightarrow> Replacement list" where
  "sortReplacements rs = sort_key (\<lambda>r. - int (r_start r)) rs"

text \<open>\<^verbatim>\<open>lines.splice(start, length, ...newLines)\<close>; \<open>take\<close> and \<open>drop\<close> clamp as splice does.\<close>

definition splice :: "string list \<Rightarrow> Replacement \<Rightarrow> string list" where
  "splice lines r = take (r_start r) lines @ r_newLines r @ drop (r_start r + r_length r) lines"

definition applyReplacements :: "Replacement list \<Rightarrow> string list \<Rightarrow> string list" where
  "applyReplacements rs lines = foldl splice lines rs"

definition ensureNewline :: "string list \<Rightarrow> string list" where
  "ensureNewline lines =
     (if length lines > 0 \<and> last lines \<noteq> [] then lines @ [[]] else lines)"

text \<open>The line buffer after all replacements, before the final newline is ensured.\<close>

definition updatedLines :: "string \<Rightarrow> UpdateFileChunk list \<Rightarrow> error + string list" where
  "updatedLines content chunks =
     (let lines = fileLines content
      in case processChunks lines chunks (0, []) of
           Inl e \<Rightarrow> Inl e
         | Inr st \<Rightarrow> Inr (applyReplacements (sortReplacements (snd st)) lines))"

definition applyUpdateChunks :: "string \<Rightarrow> UpdateFileChunk list \<Rightarrow> error + string" where
  "applyUpdateChunks content chunks =
     (case updatedLines content chunks of
        Inl e \<Rightarrow> Inl e
      | Inr lines \<Rightarrow> Inr (join_nl (ensureNewline lines)))"

section \<open>Parser\<close>

definition BEGIN_PATCH_MARKER :: string where "BEGIN_PATCH_MARKER = ''*** Begin Patch''"
definition END_PATCH_MARKER :: string where "END_PATCH_MARKER = ''*** End Patch''"
definition ADD_FILE_MARKER :: string where "ADD_FILE_MARKER = ''*** Add File: ''"
definition DELETE_FILE_MARKER :: string where "DELETE_FILE_MARKER = ''*** Delete File: ''"
definition UPDATE_FILE_MARKER :: string where "UPDATE_FILE_MARKER = ''*** Update File: ''"
definition MOVE_TO_MARKER :: string where "MOVE_TO_MARKER = ''*** Move to: ''"
definition EOF_MARKER :: string where "EOF_MARKER = ''*** End of File''"
definition CHANGE_CONTEXT_MARKER :: string where "CHANGE_CONTEXT_MARKER = ''@@ ''"
definition EMPTY_CHANGE_CONTEXT_MARKER :: string where "EMPTY_CHANGE_CONTEXT_MARKER = ''@@''"

subsection \<open>Chunk parser: \<^verbatim>\<open>parseUpdateFileChunk\<close>\<close>

definition unexpectedLine :: "string \<Rightarrow> error" where
  "unexpectedLine line =
     createError (''Unexpected line in update hunk: '' @ QUOTE # line @ [QUOTE]) 400"

text \<open>A body line appended to both line lists, to the old ones or to the new ones.\<close>

definition pushBoth :: "string \<Rightarrow> UpdateFileChunk \<Rightarrow> UpdateFileChunk" where
  "pushBoth content chunk =
     chunk\<lparr>oldLines := oldLines chunk @ [content], newLines := newLines chunk @ [content]\<rparr>"

definition pushOld :: "string \<Rightarrow> UpdateFileChunk \<Rightarrow> UpdateFileChunk" where
  "pushOld content chunk = chunk\<lparr>oldLines := oldLines chunk @ [content]\<rparr>"

definition pushNew :: "string \<Rightarrow> UpdateFileChunk \<Rightarrow> UpdateFileChunk" where
  "pushNew content chunk = chunk\<lparr>newLines := newLines chunk @ [content]\<rparr>"

text \<open>
  The loop over the body lines, from index \<open>i\<close> with the chunk built so far and the
  \<open>hasContent\<close> flag; it returns the chunk and the index it stopped at. \<open>take 1 line\<close> is
  the one-character string \<^verbatim>\<open>line[0]\<close>, empty where JavaScript has \<^verbatim>\<open>undefined\<close>.
\<close>

function chunkBody ::
  "string list \<Rightarrow> nat \<Rightarrow> UpdateFileChunk \<Rightarrow> bool \<Rightarrow> error + UpdateFileChunk \<times> nat"
where
  "chunkBody lines i chunk hasContent =
     (if i < length lines then
        (if lines ! i = EOF_MARKER then Inr (chunk\<lparr>isEndOfFile := True\<rparr>, i + 1)
         else if startsWith (lines ! i) ''***'' \<or> startsWith (lines ! i) ''@@'' then Inr (chunk, i)
         else if take 1 (lines ! i) = '' '' then
           chunkBody lines (i + 1) (pushBoth (drop 1 (lines ! i)) chunk) True
         else if take 1 (lines ! i) = ''-'' then
           chunkBody lines (i + 1) (pushOld (drop 1 (lines ! i)) chunk) True
         else if take 1 (lines ! i) = ''+'' then
           chunkBody lines (i + 1) (pushNew (drop 1 (lines ! i)) chunk) True
         else if trim (lines ! i) = [] then
           chunkBody lines (i + 1) (pushBoth [] chunk) True
         else if \<not> hasContent then Inl (unexpectedLine (lines ! i))
         else Inr (chunk, i))
      else Inr (chunk, i))"
  by pat_completeness auto
termination
  by (relation "measure (\<lambda>(lines, i, chunk, hasContent). length lines - i)") auto

declare chunkBody.simps [simp del]

definition emptyChunk :: "string option \<Rightarrow> UpdateFileChunk" where
  "emptyChunk ctx = \<lparr>changeContext = ctx, oldLines = [], newLines = [], isEndOfFile = False\<rparr>"

text \<open>The chunk and the number of lines consumed. The caller's index is inside \<open>lines\<close>.\<close>

definition parseUpdateFileChunk ::
  "string list \<Rightarrow> nat \<Rightarrow> error + UpdateFileChunk \<times> nat"
where
  "parseUpdateFileChunk lines startIndex =
     (if startIndex \<ge> length lines then Inl TypeError
      else
        (let (ctx, i) =
               (if lines ! startIndex = EMPTY_CHANGE_CONTEXT_MARKER then (None, startIndex + 1)
                else if startsWith (lines ! startIndex) CHANGE_CONTEXT_MARKER then
                  (Some (drop (length CHANGE_CONTEXT_MARKER) (lines ! startIndex)), startIndex + 1)
                else (None, startIndex))
         in case chunkBody lines i (emptyChunk ctx) False of
              Inl e \<Rightarrow> Inl e
            | Inr (chunk, i') \<Rightarrow> Inr (chunk, i' - startIndex)))"

subsection \<open>Hunk parser: \<^verbatim>\<open>parseOneHunk\<close>\<close>

text \<open>The loop collecting the \<^verbatim>\<open>+\<close> lines of an added file.\<close>

function addLoop :: "string list \<Rightarrow> nat \<Rightarrow> string \<Rightarrow> string \<times> nat" where
  "addLoop lines i contents =
     (if i < length lines \<and> startsWith (lines ! i) ''+'' then
        addLoop lines (i + 1) (contents @ drop 1 (lines ! i) @ [NL])
      else (contents, i))"
  by pat_completeness auto
termination
  by (relation "measure (\<lambda>(lines, i, contents). length lines - i)") auto

declare addLoop.simps [simp del]

text \<open>
  The loop collecting the chunks of an update hunk. It advances by what the chunk parser
  consumed, which the source does not bound from below, so the loop is a partial
  function: \<open>None\<close> is a loop that never returns.
\<close>

partial_function (option) chunksLoop ::
  "string list \<Rightarrow> nat \<Rightarrow> UpdateFileChunk list \<Rightarrow> (error + UpdateFileChunk list \<times> nat) option"
where
  "chunksLoop lines i chunks =
     (if i < length lines \<and> \<not> startsWith (lines ! i) ''***'' then
        (if trim (lines ! i) = [] then chunksLoop lines (i + 1) chunks
         else
           (case parseUpdateFileChunk lines i of
              Inl e \<Rightarrow> Some (Inl e)
            | Inr (chunk, consumed) \<Rightarrow> chunksLoop lines (i + consumed) (chunks @ [chunk])))
      else Some (Inr (chunks, i)))"

declare chunksLoop.simps [code]

definition emptyUpdate :: "string \<Rightarrow> error" where
  "emptyUpdate filePath =
     createError (''Update file hunk for path '' @ QUOTE # filePath @ QUOTE # '' is empty'') 400"

definition invalidHeader :: "string \<Rightarrow> error" where
  "invalidHeader line = createError (''Invalid hunk header: '' @ QUOTE # line @ [QUOTE]) 400"

text \<open>The hunk at \<open>startIndex\<close> and the number of lines it took.\<close>

definition parseOneHunk :: "string list \<Rightarrow> nat \<Rightarrow> (error + Hunk \<times> nat) option" where
  "parseOneHunk lines startIndex =
     (if startIndex \<ge> length lines then Some (Inl TypeError)
      else
        (let line = trim (lines ! startIndex)
         in if startsWith line ADD_FILE_MARKER then
              (let filePath = drop (length ADD_FILE_MARKER) line;
                   (contents, i) = addLoop lines (startIndex + 1) []
               in Some (Inr (Add filePath contents, i - startIndex)))
            else if startsWith line DELETE_FILE_MARKER then
              Some (Inr (Delete (drop (length DELETE_FILE_MARKER) line), 1))
            else if startsWith line UPDATE_FILE_MARKER then
              (let filePath = drop (length UPDATE_FILE_MARKER) line;
                   (movePath, i) =
                     (if startIndex + 1 < length lines
                         \<and> startsWith (lines ! (startIndex + 1)) MOVE_TO_MARKER
                      then (Some (drop (length MOVE_TO_MARKER) (lines ! (startIndex + 1))),
                            startIndex + 2)
                      else (None, startIndex + 1))
               in case chunksLoop lines i [] of
                    None \<Rightarrow> None
                  | Some (Inl e) \<Rightarrow> Some (Inl e)
                  | Some (Inr (chunks, i')) \<Rightarrow>
                      if length chunks = 0 then Some (Inl (emptyUpdate filePath))
                      else Some (Inr (Update filePath movePath chunks, i' - startIndex)))
            else Some (Inl (invalidHeader line))))"

subsection \<open>Envelope parser: \<^verbatim>\<open>parsePatch\<close>\<close>

text \<open>
  The loop over the hunks advances by what the hunk parser consumed. Every hunk the hunk
  parser returns took at least its header line, which is what makes this loop a total
  function, given that the hunk parser returned.
\<close>

lemma addLoop_ge: "i \<le> snd (addLoop lines i contents)"
proof (induction lines i contents rule: addLoop.induct)
  case (1 lines i contents)
  show ?case
  proof (cases "i < length lines \<and> startsWith (lines ! i) ''+''")
    case True
    then show ?thesis using "1.IH" by (simp add: addLoop.simps [of lines i contents])
  next
    case False
    then show ?thesis by (auto simp: addLoop.simps [of lines i contents])
  qed
qed

lemma chunksLoop_ge_aux:
  assumes "chunksLoop lines i chunks = Some r"
  shows "\<forall>cs i'. r = Inr (cs, i') \<longrightarrow> i \<le> i'"
  apply (rule chunksLoop.raw_induct
      [where P = "\<lambda>lines i chunks r. \<forall>cs i'. r = Inr (cs, i') \<longrightarrow> i \<le> i'", OF _ assms])
  subgoal premises prems for f lines i chunks r
  proof (cases "i < length lines \<and> \<not> startsWith (lines ! i) ''***''")
    case False
    with prems(2) show ?thesis by auto
  next
    case True
    show ?thesis
    proof (cases "trim (lines ! i) = []")
      case blank: True
      with True prems(2) have "f lines (i + 1) chunks = Some r" by simp
      from prems(1) [OF this] show ?thesis by auto
    next
      case nb: False
      show ?thesis
      proof (cases "parseUpdateFileChunk lines i")
        case (Inl e)
        with True nb prems(2) show ?thesis by auto
      next
        case (Inr p)
        obtain chunk consumed where p: "p = (chunk, consumed)" by (cases p)
        with Inr True nb prems(2) have "f lines (i + consumed) (chunks @ [chunk]) = Some r"
          by simp
        from prems(1) [OF this] show ?thesis by auto
      qed
    qed
  qed
  done

lemma chunksLoop_ge:
  "chunksLoop lines i chunks = Some (Inr (cs, i')) \<Longrightarrow> i \<le> i'"
  using chunksLoop_ge_aux [of lines i chunks] by blast

lemma parseOneHunk_consumed:
  assumes "parseOneHunk lines startIndex = Some (Inr (hunk, consumed))"
  shows "1 \<le> consumed"
proof -
  have a: "startIndex + 1 \<le> snd (addLoop lines (startIndex + 1) [])" by (rule addLoop_ge)
  show ?thesis
    using assms a
    by (auto simp: parseOneHunk_def Let_def split: if_splits prod.splits option.splits sum.splits
        dest!: chunksLoop_ge)
qed

text \<open>The loop of \<^verbatim>\<open>parsePatch\<close>: hunks are parsed until the last line is reached.\<close>

function hunksLoop :: "string list \<Rightarrow> nat \<Rightarrow> Hunk list \<Rightarrow> (error + Hunk list) option" where
  "hunksLoop lines i hunks =
     (if i < length lines - 1 then
        (case parseOneHunk lines i of
           None \<Rightarrow> None
         | Some (Inl e) \<Rightarrow> Some (Inl e)
         | Some (Inr (hunk, consumed)) \<Rightarrow> hunksLoop lines (i + consumed) (hunks @ [hunk]))
      else Some (Inr hunks))"
  by pat_completeness auto
termination
proof (relation "measure (\<lambda>(lines, i, hunks). length lines - i)")
  show "wf (measure (\<lambda>(lines, i, hunks). length lines - i))" by simp
next
  fix lines :: "string list" and i :: nat and hunks :: "Hunk list" and x2 x2a x y
  assume "i < length lines - 1" "parseOneHunk lines i = Some x2" "x2 = Inr x2a" "(x, y) = x2a"
  then have "parseOneHunk lines i = Some (Inr (x, y))" "i < length lines" by auto
  then have "1 \<le> y" by (auto dest: parseOneHunk_consumed)
  then show "((lines, i + y, hunks @ [x]), lines, i, hunks) \<in> measure (\<lambda>(lines, i, hunks). length lines - i)"
    using \<open>i < length lines - 1\<close> by simp
qed

declare hunksLoop.simps [simp del]

definition parsePatch :: "string \<Rightarrow> (error + Hunk list) option" where
  "parsePatch patch =
     (let lines = split_nl (trim patch)
      in if length lines < 2 then
           Some (Inl (createError ''Patch must have at least begin and end markers'' 400))
         else if lines ! 0 \<noteq> BEGIN_PATCH_MARKER then
           Some (Inl (createError
             (''The first line of the patch must be '' @ QUOTE # ''*** Begin Patch'' @ [QUOTE]) 400))
         else if lines ! (length lines - 1) \<noteq> END_PATCH_MARKER then
           Some (Inl (createError
             (''The last line of the patch must be '' @ QUOTE # ''*** End Patch'' @ [QUOTE]) 400))
         else hunksLoop lines 1 [])"

section \<open>Notions used in the statements\<close>

text \<open>A format error: the parser returned, with an error made by \<open>createError\<close> with status 400.\<close>

definition isFormatError :: "(error + 'a) option \<Rightarrow> bool" where
  "isFormatError r =
     (case r of
        Some (Inl (ApplyPatchError message status)) \<Rightarrow> status = 400
      | _ \<Rightarrow> False)"

text \<open>
  The hunk positions: the indices, from \<open>i\<close> on, at which the loop of \<open>parsePatch\<close> calls
  the hunk parser.
\<close>

function hunkPositions :: "string list \<Rightarrow> nat \<Rightarrow> nat list" where
  "hunkPositions lines i =
     (if i < length lines - 1 then
        (case parseOneHunk lines i of
           Some (Inr (hunk, consumed)) \<Rightarrow> i # hunkPositions lines (i + consumed)
         | _ \<Rightarrow> [i])
      else [])"
  by pat_completeness auto
termination
proof (relation "measure (\<lambda>(lines, i). length lines - i)")
  show "wf (measure (\<lambda>(lines, i). length lines - i))" by simp
next
  fix lines :: "string list" and i :: nat and x2 x2a x y
  assume "i < length lines - 1" "parseOneHunk lines i = Some x2" "x2 = Inr x2a" "(x, y) = x2a"
  then have "parseOneHunk lines i = Some (Inr (x, y))" by auto
  then have "1 \<le> y" by (rule parseOneHunk_consumed)
  then show "((lines, i + y), lines, i) \<in> measure (\<lambda>(lines, i). length lines - i)"
    using \<open>i < length lines - 1\<close> by simp
qed

declare hunkPositions.simps [simp del]

text \<open>
  A body line the specification calls unclassifiable: not starting with a space, \<^verbatim>\<open>-\<close> or \<^verbatim>\<open>+\<close>,
  not the end-of-file marker, and not starting with \<^verbatim>\<open>***\<close> or \<^verbatim>\<open>@@\<close>.
\<close>

definition unclassifiable :: "string \<Rightarrow> bool" where
  "unclassifiable line =
     (take 1 line \<noteq> '' '' \<and> take 1 line \<noteq> ''-'' \<and> take 1 line \<noteq> ''+''
      \<and> line \<noteq> EOF_MARKER \<and> \<not> startsWith line ''***'' \<and> \<not> startsWith line ''@@'')"

text \<open>
  A line that starts with \<^verbatim>\<open>@@\<close> and is neither of the two forms of the context marker.
\<close>

definition strayContextLine :: "string \<Rightarrow> bool" where
  "strayContextLine line =
     (startsWith line ''@@'' \<and> line \<noteq> EMPTY_CHANGE_CONTEXT_MARKER
      \<and> \<not> startsWith line CHANGE_CONTEXT_MARKER)"

text \<open>A text that ends with a newline, and not with two.\<close>

definition endsWithOneNewline :: "string \<Rightarrow> bool" where
  "endsWithOneNewline s =
     (s \<noteq> [] \<and> last s = NL \<and> (butlast s = [] \<or> last (butlast s) \<noteq> NL))"

text \<open>Lines without a newline inside, as the lines of a split text are.\<close>

definition newlineFree :: "string list \<Rightarrow> bool" where
  "newlineFree lines = (\<forall>l \<in> set lines. NL \<notin> set l)"


text \<open>The chunks of an update operation; the other operations have none.\<close>

fun chunksOf :: "Hunk \<Rightarrow> UpdateFileChunk list" where
  "chunksOf (Update filePath movePath chunks) = chunks"
| "chunksOf _ = []"

text \<open>
  The lines from \<open>pos\<close> on, with each span of a list of replacements, taken in order and
  at its position in these lines, replaced by the new lines of its replacement.
\<close>

fun rebuild :: "nat \<Rightarrow> Replacement list \<Rightarrow> string list \<Rightarrow> string list" where
  "rebuild pos [] lines = drop pos lines"
| "rebuild pos (r # rs) lines =
     take (r_start r - pos) (drop pos lines) @ r_newLines r
       @ rebuild (r_start r + r_length r) rs lines"

text \<open>
  Replacements in the order of the file: each span non-empty, inside the \<open>n\<close> lines, and
  starting at or after \<open>pos\<close> and after the end of the span before it.
\<close>

fun ascending :: "nat \<Rightarrow> Replacement list \<Rightarrow> nat \<Rightarrow> bool" where
  "ascending pos [] n = True"
| "ascending pos (r # rs) n =
     (pos \<le> r_start r \<and> 0 < r_length r \<and> r_start r + r_length r \<le> n
      \<and> ascending (r_start r + r_length r) rs n)"

text \<open>The end of the last span queued.\<close>

definition endOf :: "Replacement list \<Rightarrow> nat" where
  "endOf rs = (if rs = [] then 0 else r_start (last rs) + r_length (last rs))"

section \<open>The line matcher finds the first match\<close>

lemma exactLoop_iff:
  "exactLoop lines pattern i j \<longleftrightarrow> (\<forall>k. j \<le> k \<and> k < length pattern \<longrightarrow> lines ! (i + k) = pattern ! k)"
proof (induction lines pattern i j rule: exactLoop.induct)
  case (1 lines pattern i j)
  show ?case
  proof (cases "j < length pattern")
    case False
    then show ?thesis by (auto simp: exactLoop.simps [of lines pattern i j])
  next
    case True
    show ?thesis
    proof (cases "lines ! (i + j) = pattern ! j")
      case False
      with True show ?thesis
        by (auto simp: exactLoop.simps [of lines pattern i j])
    next
      case eq: True
      have "exactLoop lines pattern i j = exactLoop lines pattern i (j + 1)"
        using True eq by (simp add: exactLoop.simps [of lines pattern i j])
      also have "\<dots> \<longleftrightarrow> (\<forall>k. j + 1 \<le> k \<and> k < length pattern \<longrightarrow> lines ! (i + k) = pattern ! k)"
        using "1.IH" True eq by simp
      also have "\<dots> \<longleftrightarrow> (\<forall>k. j \<le> k \<and> k < length pattern \<longrightarrow> lines ! (i + k) = pattern ! k)"
        using eq by (metis Suc_eq_plus1 Suc_leI le_eq_less_or_eq Suc_leD)
      finally show ?thesis .
    qed
  qed
qed

lemma trimmedLoop_iff:
  "trimmedLoop lines pattern i j \<longleftrightarrow>
     (\<forall>k. j \<le> k \<and> k < length pattern \<longrightarrow> trim (lines ! (i + k)) = trim (pattern ! k))"
proof (induction lines pattern i j rule: trimmedLoop.induct)
  case (1 lines pattern i j)
  show ?case
  proof (cases "j < length pattern")
    case False
    then show ?thesis by (auto simp: trimmedLoop.simps [of lines pattern i j])
  next
    case True
    show ?thesis
    proof (cases "trim (lines ! (i + j)) = trim (pattern ! j)")
      case False
      with True show ?thesis
        by (auto simp: trimmedLoop.simps [of lines pattern i j])
    next
      case eq: True
      have "trimmedLoop lines pattern i j = trimmedLoop lines pattern i (j + 1)"
        using True eq by (simp add: trimmedLoop.simps [of lines pattern i j])
      also have "\<dots> \<longleftrightarrow> (\<forall>k. j + 1 \<le> k \<and> k < length pattern \<longrightarrow> trim (lines ! (i + k)) = trim (pattern ! k))"
        using "1.IH" True eq by simp
      also have "\<dots> \<longleftrightarrow> (\<forall>k. j \<le> k \<and> k < length pattern \<longrightarrow> trim (lines ! (i + k)) = trim (pattern ! k))"
        using eq by (metis Suc_eq_plus1 Suc_leI le_eq_less_or_eq Suc_leD)
      finally show ?thesis .
    qed
  qed
qed

lemma exactAt_nth:
  assumes "i + length pattern \<le> length lines"
  shows "exactAt lines pattern i \<longleftrightarrow> (\<forall>k<length pattern. lines ! (i + k) = pattern ! k)"
  using assms by (auto simp: exactAt_def list_eq_iff_nth_eq)

lemma trimmedAt_nth:
  assumes "i + length pattern \<le> length lines"
  shows "trimmedAt lines pattern i \<longleftrightarrow> (\<forall>k<length pattern. trim (lines ! (i + k)) = trim (pattern ! k))"
  using assms by (auto simp: trimmedAt_def list_eq_iff_nth_eq)

lemma seekLoop_step:
  assumes "length pattern \<le> length lines"
  shows "seekLoop lines pattern i =
           (if matchesAt lines pattern i then Some i
            else if i + length pattern \<le> length lines then seekLoop lines pattern (i + 1) else None)"
proof (cases "i + length pattern \<le> length lines")
  case True
  then have "i \<le> length lines - length pattern" by simp
  then show ?thesis using True
    by (auto simp: seekLoop.simps [of lines pattern i] matchesAt_def exactAt_nth trimmedAt_nth
        exactLoop_iff trimmedLoop_iff)
next
  case False
  then have "\<not> i \<le> length lines - length pattern" using assms by simp
  then show ?thesis using False
    by (simp add: seekLoop.simps [of lines pattern i] matchesAt_def)
qed

lemma seekLoop_Some:
  assumes "length pattern \<le> length lines"
  shows "seekLoop lines pattern start = Some i \<longleftrightarrow>
           (start \<le> i \<and> matchesAt lines pattern i \<and> (\<forall>k. start \<le> k \<and> k < i \<longrightarrow> \<not> matchesAt lines pattern k))"
  using assms
proof (induction lines pattern start rule: seekLoop.induct)
  case (1 lines pattern s)
  note step = seekLoop_step [OF "1.prems", of s]
  show ?case
  proof (cases "matchesAt lines pattern s")
    case True
    then show ?thesis using step by (auto simp: not_less)
  next
    case nm: False
    show ?thesis
    proof (cases "s + length pattern \<le> length lines")
      case False
      then have "\<And>k. s \<le> k \<Longrightarrow> \<not> matchesAt lines pattern k" by (simp add: matchesAt_def)
      then show ?thesis using step nm False by auto
    next
      case True
      then have le: "s \<le> length lines - length pattern" by simp
      have ex: "\<not> exactLoop lines pattern s 0" and tr: "\<not> trimmedLoop lines pattern s 0"
        using nm True by (simp_all add: matchesAt_def exactAt_nth trimmedAt_nth exactLoop_iff trimmedLoop_iff)
      have IH: "seekLoop lines pattern (s + 1) = Some i \<longleftrightarrow>
           (s + 1 \<le> i \<and> matchesAt lines pattern i \<and> (\<forall>k. s + 1 \<le> k \<and> k < i \<longrightarrow> \<not> matchesAt lines pattern k))"
        using "1.IH" [OF le ex tr "1.prems"] .
      have "seekLoop lines pattern s = seekLoop lines pattern (s + 1)"
        using step nm True by simp
      moreover have "(s + 1 \<le> i \<and> matchesAt lines pattern i \<and> (\<forall>k. s + 1 \<le> k \<and> k < i \<longrightarrow> \<not> matchesAt lines pattern k))
         \<longleftrightarrow> (s \<le> i \<and> matchesAt lines pattern i \<and> (\<forall>k. s \<le> k \<and> k < i \<longrightarrow> \<not> matchesAt lines pattern k))"
        using nm by (metis Suc_eq_plus1 Suc_leI le_eq_less_or_eq Suc_leD)
      ultimately show ?thesis using IH by simp
    qed
  qed
qed

lemma seekLoop_None:
  assumes "length pattern \<le> length lines"
  shows "seekLoop lines pattern start = None \<longleftrightarrow> (\<forall>k\<ge>start. \<not> matchesAt lines pattern k)"
proof
  assume n: "seekLoop lines pattern start = None"
  show "\<forall>k\<ge>start. \<not> matchesAt lines pattern k"
  proof (intro allI impI notI)
    fix k assume k: "start \<le> k" "matchesAt lines pattern k"
    define P where "P = (\<lambda>j. start \<le> j \<and> matchesAt lines pattern j)"
    have "P k" using k by (simp add: P_def)
    then have "P (LEAST j. P j)" by (rule LeastI)
    moreover have "\<And>j. j < (LEAST j. P j) \<Longrightarrow> \<not> P j" by (rule not_less_Least)
    ultimately have "seekLoop lines pattern start = Some (LEAST j. P j)"
      unfolding seekLoop_Some [OF assms] P_def by blast
    with n show False by simp
  qed
next
  assume "\<forall>k\<ge>start. \<not> matchesAt lines pattern k"
  then show "seekLoop lines pattern start = None"
    using seekLoop_Some [OF assms, of start] by (cases "seekLoop lines pattern start") auto
qed

text \<open>
  C1. \<open>seekSequence\<close> returns the start index for the empty pattern; it returns nothing
  when the (non-empty) pattern is longer than what is left of the lines from the start
  index; and for a non-empty pattern it returns exactly the smallest index \<open>i\<close>, at or
  after the start index, at which every pattern line equals the corresponding line
  exactly or after both are trimmed, and nothing exactly when there is no such index.
  The start index is a natural number, as every start index the applier passes is.
\<close>

theorem seekSequence_spec:
  "seekSequence lines [] start = Some start
   \<and> (pattern \<noteq> [] \<and> length lines - start < length pattern \<longrightarrow>
        seekSequence lines pattern start = None)
   \<and> (pattern \<noteq> [] \<longrightarrow>
        (\<forall>i. seekSequence lines pattern start = Some i \<longleftrightarrow>
           start \<le> i \<and> matchesAt lines pattern i
           \<and> (\<forall>k. start \<le> k \<and> k < i \<longrightarrow> \<not> matchesAt lines pattern k))
        \<and> (seekSequence lines pattern start = None \<longleftrightarrow>
             (\<forall>k\<ge>start. \<not> matchesAt lines pattern k)))"
proof (intro conjI impI allI)
  show "seekSequence lines [] start = Some start"
    by (simp add: seekSequence_def)
next
  assume "pattern \<noteq> [] \<and> length lines - start < length pattern"
  then have ne: "pattern \<noteq> []" and short: "length lines - start < length pattern" by simp_all
  show "seekSequence lines pattern start = None"
  proof (cases "length pattern > length lines")
    case True
    then show ?thesis using ne by (simp add: seekSequence_def)
  next
    case False
    then have le: "length pattern \<le> length lines" by simp
    have "\<forall>k\<ge>start. \<not> matchesAt lines pattern k"
      using short by (auto simp: matchesAt_def)
    then have "seekLoop lines pattern start = None"
      by (simp add: seekLoop_None [OF le])
    then show ?thesis using ne False by (simp add: seekSequence_def)
  qed
next
  fix i
  assume ne: "pattern \<noteq> []"
  show "seekSequence lines pattern start = Some i \<longleftrightarrow>
           start \<le> i \<and> matchesAt lines pattern i
           \<and> (\<forall>k. start \<le> k \<and> k < i \<longrightarrow> \<not> matchesAt lines pattern k)"
  proof (cases "length pattern > length lines")
    case True
    then have "\<not> matchesAt lines pattern i" by (simp add: matchesAt_def)
    then show ?thesis using ne True by (simp add: seekSequence_def)
  next
    case False
    then have le: "length pattern \<le> length lines" by simp
    have "seekSequence lines pattern start = seekLoop lines pattern start"
      using ne False by (simp add: seekSequence_def)
    then show ?thesis by (simp only: seekLoop_Some [OF le])
  qed
next
  assume ne: "pattern \<noteq> []"
  show "seekSequence lines pattern start = None \<longleftrightarrow> (\<forall>k\<ge>start. \<not> matchesAt lines pattern k)"
  proof (cases "length pattern > length lines")
    case True
    then have "\<forall>k\<ge>start. \<not> matchesAt lines pattern k" by (simp add: matchesAt_def)
    then show ?thesis using ne True by (simp add: seekSequence_def)
  next
    case False
    then have le: "length pattern \<le> length lines" by simp
    have "seekSequence lines pattern start = seekLoop lines pattern start"
      using ne False by (simp add: seekSequence_def)
    then show ?thesis by (simp only: seekLoop_None [OF le])
  qed
qed

theorem seekSequence_spec_witness:
  "[''b''] \<noteq> [] \<and> length [''a''] - 0 < length [''a'', ''b'']
   \<and> seekSequence [''a''] [''a'', ''b''] 0 = None
   \<and> seekSequence [''a'', '' b '', ''b''] [''b''] 0 = Some 1
   \<and> seekSequence [''a'', '' b '', ''b''] [''c''] 0 = None"
proof -
  have m: "\<not> matchesAt [''a'', '' b '', ''b''] [''b''] 0"
          "matchesAt [''a'', '' b '', ''b''] [''b''] 1"
    by (simp_all add: matchesAt_def exactAt_def trimmedAt_def trim_def isWhiteSpace_def)
  have n: "\<forall>k\<ge>0. \<not> matchesAt [''a'', '' b '', ''b''] [''c''] k"
  proof (intro allI impI)
    fix k :: nat
    consider "k = 0" | "k = 1" | "k = 2" | "k \<ge> 3" by linarith
    then show "\<not> matchesAt [''a'', '' b '', ''b''] [''c''] k"
      by cases (simp_all add: matchesAt_def exactAt_def trimmedAt_def trim_def isWhiteSpace_def)
  qed
  have a: "seekSequence [''a''] [''a'', ''b''] 0 = None"
    using seekSequence_spec [of "[''a'']" 0 "[''a'', ''b'']"] by simp
  have "\<forall>k. 0 \<le> k \<and> k < 1 \<longrightarrow> \<not> matchesAt [''a'', '' b '', ''b''] [''b''] k"
    using m(1) by simp
  then have b: "seekSequence [''a'', '' b '', ''b''] [''b''] 0 = Some 1"
    using seekSequence_spec [of "[''a'', '' b '', ''b'']" 0 "[''b'']"] m(2) by simp
  have c: "seekSequence [''a'', '' b '', ''b''] [''c''] 0 = None"
    using seekSequence_spec [of "[''a'', '' b '', ''b'']" 0 "[''c'']"] n by simp
  show ?thesis using a b c by simp
qed

section \<open>The applier: cursor and match errors\<close>

lemma seekSequence_ge:
  assumes "seekSequence lines pattern start = Some m"
  shows "start \<le> m"
proof (cases "length pattern = 0 \<or> length pattern > length lines")
  case True
  with assms show ?thesis by (auto simp: seekSequence_def split: if_splits)
next
  case False
  then have le: "length pattern \<le> length lines" by simp
  from False assms have "seekLoop lines pattern start = Some m" by (simp add: seekSequence_def)
  then show ?thesis by (simp add: seekLoop_Some [OF le])
qed

lemma contextCursor_ge: "searchStart \<le> contextCursor lines chunk searchStart"
proof (cases "changeContext chunk")
  case None
  then show ?thesis by (simp add: contextCursor_def)
next
  case (Some ctx)
  show ?thesis
  proof (cases "seekSequence lines [ctx] searchStart")
    case None
    with Some show ?thesis by (simp add: contextCursor_def)
  next
    case (Some i)
    then have "searchStart \<le> i" by (rule seekSequence_ge)
    with Some \<open>changeContext chunk = Some ctx\<close> show ?thesis
      by (simp add: contextCursor_def)
  qed
qed

lemma processChunk_pure:
  assumes "oldLines chunk = []"
  shows "processChunk lines chunk st =
           Inr (contextCursor lines chunk (fst st),
                snd st @ [\<lparr>r_start = length lines, r_length = 0, r_newLines = newLines chunk\<rparr>])"
  using assms by (simp add: processChunk_def)

lemma processChunk_miss:
  assumes "oldLines chunk \<noteq> []"
      and "seekSequence lines (chunkPattern chunk) (contextCursor lines chunk (fst st)) = None"
  shows "processChunk lines chunk st = Inl (matchError (chunkPattern chunk))"
  using assms by (simp add: processChunk_def)

lemma processChunk_found:
  assumes "oldLines chunk \<noteq> []"
      and "seekSequence lines (chunkPattern chunk) (contextCursor lines chunk (fst st)) = Some m"
  shows "processChunk lines chunk st =
           Inr (m + length (chunkPattern chunk),
                snd st @ [\<lparr>r_start = m, r_length = length (chunkPattern chunk),
                           r_newLines = chunkNewLines chunk\<rparr>])"
  using assms by (simp add: processChunk_def Let_def)

lemma processChunk_cursor:
  assumes "processChunk lines chunk st = Inr st'"
  shows "fst st \<le> fst st'"
proof (cases "oldLines chunk = []")
  case True
  then show ?thesis using assms contextCursor_ge [of "fst st" lines chunk]
    by (auto simp: processChunk_pure)
next
  case False
  show ?thesis
  proof (cases "seekSequence lines (chunkPattern chunk) (contextCursor lines chunk (fst st))")
    case None
    with False assms show ?thesis by (simp add: processChunk_miss)
  next
    case (Some m)
    from seekSequence_ge [OF Some] contextCursor_ge [of "fst st" lines chunk]
    have "fst st \<le> m" by simp
    with False Some assms show ?thesis by (auto simp: processChunk_found)
  qed
qed

lemma processChunks_append:
  "processChunks lines (pre @ post) st =
     (case processChunks lines pre st of Inl e \<Rightarrow> Inl e | Inr st1 \<Rightarrow> processChunks lines post st1)"
  by (induction pre arbitrary: st) (auto split: sum.splits)

lemma processChunks_cursor:
  "processChunks lines chunks st = Inr st' \<Longrightarrow> fst st \<le> fst st'"
proof (induction chunks arbitrary: st)
  case Nil
  then show ?case by simp
next
  case (Cons c cs)
  then obtain st1 where 1: "processChunk lines c st = Inr st1" and 2: "processChunks lines cs st1 = Inr st'"
    by (auto split: sum.splits)
  from processChunk_cursor [OF 1] Cons.IH [OF 2] show ?case by simp
qed

text \<open>
  C4. When the chunks before it have been processed and a chunk with old lines comes up:
  if the line matcher finds no occurrence of the chunk's (normalised) pattern at or after
  the cursor, the whole update fails with the error whose message is
  \<^verbatim>\<open>Failed to find expected lines:\<close>, a newline, and the pattern lines joined by
  newlines; if the matcher finds the pattern at \<open>m\<close>, the chunk raises no error: it
  queues its replacement and moves the cursor behind the match.
\<close>

theorem match_error:
  assumes "processChunks (fileLines content) pre (0, []) = Inr st"
      and "oldLines chunk \<noteq> []"
  shows "(seekSequence (fileLines content) (chunkPattern chunk)
            (contextCursor (fileLines content) chunk (fst st)) = None \<longrightarrow>
          applyUpdateChunks content (pre @ chunk # post) =
            Inl (ApplyPatchError
                  (''Failed to find expected lines:'' @ NL # join_nl (chunkPattern chunk)) 400))
       \<and> (\<forall>m. seekSequence (fileLines content) (chunkPattern chunk)
                 (contextCursor (fileLines content) chunk (fst st)) = Some m \<longrightarrow>
               processChunk (fileLines content) chunk st =
                 Inr (m + length (chunkPattern chunk),
                      snd st @ [\<lparr>r_start = m, r_length = length (chunkPattern chunk),
                                 r_newLines = chunkNewLines chunk\<rparr>]))"
proof (intro conjI impI allI)
  assume miss: "seekSequence (fileLines content) (chunkPattern chunk)
                  (contextCursor (fileLines content) chunk (fst st)) = None"
  have "processChunks (fileLines content) (pre @ chunk # post) (0, []) =
          Inl (matchError (chunkPattern chunk))"
    using assms(1) processChunk_miss [OF assms(2) miss]
    by (simp add: processChunks_append)
  then show "applyUpdateChunks content (pre @ chunk # post) =
            Inl (ApplyPatchError
                  (''Failed to find expected lines:'' @ NL # join_nl (chunkPattern chunk)) 400)"
    by (simp add: applyUpdateChunks_def updatedLines_def matchError_def createError_def)
next
  fix m
  assume "seekSequence (fileLines content) (chunkPattern chunk)
            (contextCursor (fileLines content) chunk (fst st)) = Some m"
  then show "processChunk (fileLines content) chunk st =
                 Inr (m + length (chunkPattern chunk),
                      snd st @ [\<lparr>r_start = m, r_length = length (chunkPattern chunk),
                                 r_newLines = chunkNewLines chunk\<rparr>])"
    by (rule processChunk_found [OF assms(2)])
qed

text \<open>The scenario of the test suite: the file holds \<^verbatim>\<open>different content\<close>.\<close>

theorem match_error_witness:
  "processChunks (fileLines (''different content'' @ [NL])) [] (0, []) = Inr (0, [])
   \<and> oldLines \<lparr>changeContext = None, oldLines = [''nonexistent line''],
                newLines = [''replacement''], isEndOfFile = False\<rparr> \<noteq> []
   \<and> applyUpdateChunks (''different content'' @ [NL])
        [\<lparr>changeContext = None, oldLines = [''nonexistent line''],
          newLines = [''replacement''], isEndOfFile = False\<rparr>]
       = Inl (ApplyPatchError (''Failed to find expected lines:'' @ NL # ''nonexistent line'') 400)
   \<and> processChunk (fileLines (''different content'' @ [NL]))
        \<lparr>changeContext = None, oldLines = [''different content''],
          newLines = [''replacement''], isEndOfFile = False\<rparr> (0, [])
       = Inr (1, [\<lparr>r_start = 0, r_length = 1, r_newLines = [''replacement'']\<rparr>])"
proof -
  let ?content = "''different content'' @ [NL]"
  let ?c1 = "\<lparr>changeContext = None, oldLines = [''nonexistent line''],
               newLines = [''replacement''], isEndOfFile = False\<rparr>"
  let ?c2 = "\<lparr>changeContext = None, oldLines = [''different content''],
               newLines = [''replacement''], isEndOfFile = False\<rparr>"
  have h1: "processChunks (fileLines ?content) [] (0, []) = Inr (0, [])" by simp
  have h2: "oldLines ?c1 \<noteq> []" and h2': "oldLines ?c2 \<noteq> []" by simp_all
  have p1: "chunkPattern ?c1 = [''nonexistent line'']" and p2: "chunkPattern ?c2 = [''different content'']"
    and n2: "chunkNewLines ?c2 = [''replacement'']"
    by (simp_all add: chunkPattern_def chunkNewLines_def)
  have s1: "seekSequence (fileLines ?content) (chunkPattern ?c1)
              (contextCursor (fileLines ?content) ?c1 (fst (0, []))) = None"
    by code_simp
  have s2: "seekSequence (fileLines ?content) (chunkPattern ?c2)
              (contextCursor (fileLines ?content) ?c2 (fst (0, []))) = Some 0"
    by code_simp
  have a: "applyUpdateChunks ?content ([] @ ?c1 # []) =
             Inl (ApplyPatchError (''Failed to find expected lines:'' @ NL # join_nl (chunkPattern ?c1)) 400)"
    by (rule match_error [OF h1 h2, of "[]", THEN conjunct1, THEN mp, OF s1])
  have b: "processChunk (fileLines ?content) ?c2 (0, []) =
             Inr (0 + length (chunkPattern ?c2),
                  snd (0::nat, []) @ [\<lparr>r_start = 0, r_length = length (chunkPattern ?c2),
                                   r_newLines = chunkNewLines ?c2\<rparr>])"
    by (rule match_error [OF h1 h2', of "[]", THEN conjunct2, rule_format, OF s2])
  show ?thesis using h1 a b by (simp add: p1 p2 n2)
qed

lemma contextCursor_found:
  assumes "changeContext chunk = Some ctx" and "ctx \<noteq> []"
      and "seekSequence lines [ctx] cur = Some i"
  shows "contextCursor lines chunk cur = i + 1"
  using assms by (simp add: contextCursor_def)

lemma contextCursor_unchanged:
  assumes "changeContext chunk = None \<or> changeContext chunk = Some []
           \<or> (changeContext chunk = Some ctx \<and> seekSequence lines [ctx] cur = None)"
  shows "contextCursor lines chunk cur = cur"
  using assms by (auto simp: contextCursor_def)

lemma processChunk_drop_hint:
  assumes "contextCursor lines chunk (fst st) = fst st"
  shows "processChunk lines chunk st = processChunk lines (chunk\<lparr>changeContext := None\<rparr>) st"
proof -
  have "contextCursor lines (chunk\<lparr>changeContext := None\<rparr>) (fst st) = fst st"
    by (simp add: contextCursor_def)
  moreover have "chunkPattern (chunk\<lparr>changeContext := None\<rparr>) = chunkPattern chunk"
    and "chunkNewLines (chunk\<lparr>changeContext := None\<rparr>) = chunkNewLines chunk"
    by (simp_all add: chunkPattern_def chunkNewLines_def)
  ultimately show ?thesis using assms
    by (simp add: processChunk_def Let_def cong: option.case_cong)
qed

text \<open>
  C6, as the code has it. The cursor never moves back: not over one chunk, and not from
  any prefix of the chunks to the whole list. A non-empty context hint found at \<open>i\<close>
  moves the cursor to \<open>i + 1\<close>; an absent hint, an empty hint and a hint that is not found
  leave it where it is, and a chunk whose hint is not found is processed exactly as the
  chunk without the hint (so the miss raises nothing); a pattern matched at \<open>m\<close> moves
  the cursor to \<open>m\<close> plus the length of the pattern.
\<close>

theorem cursor_never_rewinds:
  "(processChunk lines chunk st = Inr st' \<longrightarrow> fst st \<le> fst st')
   \<and> (processChunks lines (pre @ post) st = Inr st2 \<longrightarrow>
        (\<exists>st1. processChunks lines pre st = Inr st1 \<and> fst st \<le> fst st1 \<and> fst st1 \<le> fst st2))
   \<and> (changeContext chunk = Some ctx \<and> ctx \<noteq> [] \<and> seekSequence lines [ctx] cur = Some i \<longrightarrow>
        contextCursor lines chunk cur = i + 1)
   \<and> (changeContext chunk = None \<or> changeContext chunk = Some []
        \<or> (changeContext chunk = Some ctx \<and> seekSequence lines [ctx] cur = None) \<longrightarrow>
        contextCursor lines chunk cur = cur)
   \<and> (changeContext chunk = Some ctx \<and> seekSequence lines [ctx] (fst st) = None \<longrightarrow>
        processChunk lines chunk st = processChunk lines (chunk\<lparr>changeContext := None\<rparr>) st)
   \<and> (oldLines chunk \<noteq> []
        \<and> seekSequence lines (chunkPattern chunk) (contextCursor lines chunk (fst st)) = Some m \<longrightarrow>
        (\<exists>replacements.
           processChunk lines chunk st = Inr (m + length (chunkPattern chunk), replacements)))"
proof (intro conjI impI)
  assume "processChunk lines chunk st = Inr st'"
  then show "fst st \<le> fst st'" by (rule processChunk_cursor)
next
  assume a: "processChunks lines (pre @ post) st = Inr st2"
  then obtain st1 where 1: "processChunks lines pre st = Inr st1"
    and 2: "processChunks lines post st1 = Inr st2"
    by (auto simp: processChunks_append split: sum.splits)
  from processChunks_cursor [OF 1] processChunks_cursor [OF 2] 1
  show "\<exists>st1. processChunks lines pre st = Inr st1 \<and> fst st \<le> fst st1 \<and> fst st1 \<le> fst st2"
    by blast
next
  assume "changeContext chunk = Some ctx \<and> ctx \<noteq> [] \<and> seekSequence lines [ctx] cur = Some i"
  then show "contextCursor lines chunk cur = i + 1" by (simp add: contextCursor_found)
next
  assume "changeContext chunk = None \<or> changeContext chunk = Some []
        \<or> (changeContext chunk = Some ctx \<and> seekSequence lines [ctx] cur = None)"
  then show "contextCursor lines chunk cur = cur" by (rule contextCursor_unchanged)
next
  assume "changeContext chunk = Some ctx \<and> seekSequence lines [ctx] (fst st) = None"
  then have "contextCursor lines chunk (fst st) = fst st"
    by (intro contextCursor_unchanged [where ctx = ctx]) simp
  then show "processChunk lines chunk st = processChunk lines (chunk\<lparr>changeContext := None\<rparr>) st"
    by (rule processChunk_drop_hint)
next
  assume "oldLines chunk \<noteq> []
        \<and> seekSequence lines (chunkPattern chunk) (contextCursor lines chunk (fst st)) = Some m"
  then show "\<exists>replacements.
           processChunk lines chunk st = Inr (m + length (chunkPattern chunk), replacements)"
    by (simp add: processChunk_found)
qed

theorem cursor_never_rewinds_witness:
  "seekSequence [''x = 1'', ''def f():'', ''  pass''] [''def f():''] 0 = Some 1
   \<and> contextCursor [''x = 1'', ''def f():'', ''  pass'']
        \<lparr>changeContext = Some ''def f():'', oldLines = [''  pass''],
          newLines = [''  return 1''], isEndOfFile = False\<rparr> 0 = 2
   \<and> seekSequence [''x = 1'', ''def f():'', ''  pass''] [''nowhere''] 0 = None
   \<and> contextCursor [''x = 1'', ''def f():'', ''  pass'']
        \<lparr>changeContext = Some ''nowhere'', oldLines = [''  pass''],
          newLines = [''  return 1''], isEndOfFile = False\<rparr> 0 = 0
   \<and> processChunk [''x = 1'', ''def f():'', ''  pass'']
        \<lparr>changeContext = Some ''nowhere'', oldLines = [''  pass''],
          newLines = [''  return 1''], isEndOfFile = False\<rparr> (0, [])
       = processChunk [''x = 1'', ''def f():'', ''  pass'']
        \<lparr>changeContext = None, oldLines = [''  pass''],
          newLines = [''  return 1''], isEndOfFile = False\<rparr> (0, [])
   \<and> processChunk [''x = 1'', ''def f():'', ''  pass'']
        \<lparr>changeContext = Some ''def f():'', oldLines = [''  pass''],
          newLines = [''  return 1''], isEndOfFile = False\<rparr> (0, [])
       = Inr (3, [\<lparr>r_start = 2, r_length = 1, r_newLines = [''  return 1'']\<rparr>])
   \<and> processChunks [''x = 1'', ''def f():'', ''  pass'']
        ([\<lparr>changeContext = Some ''x = 1'', oldLines = [''def f():''],
           newLines = [''def g():''], isEndOfFile = False\<rparr>]
         @ [\<lparr>changeContext = None, oldLines = [''  pass''],
             newLines = [''  return 1''], isEndOfFile = False\<rparr>]) (0, [])
       = Inr (3, [\<lparr>r_start = 1, r_length = 1, r_newLines = [''def g():'']\<rparr>,
                  \<lparr>r_start = 2, r_length = 1, r_newLines = [''  return 1'']\<rparr>])
   \<and> (\<exists>st1. processChunks [''x = 1'', ''def f():'', ''  pass'']
          [\<lparr>changeContext = Some ''x = 1'', oldLines = [''def f():''],
            newLines = [''def g():''], isEndOfFile = False\<rparr>] (0, []) = Inr st1
        \<and> 0 \<le> fst st1 \<and> fst st1 \<le> 3)"
proof -
  let ?lines = "[''x = 1'', ''def f():'', ''  pass'']"
  let ?c = "\<lparr>changeContext = Some ''def f():'', oldLines = [''  pass''],
              newLines = [''  return 1''], isEndOfFile = False\<rparr>"
  let ?d = "\<lparr>changeContext = Some ''nowhere'', oldLines = [''  pass''],
              newLines = [''  return 1''], isEndOfFile = False\<rparr>"
  let ?e = "\<lparr>changeContext = Some ''x = 1'', oldLines = [''def f():''],
              newLines = [''def g():''], isEndOfFile = False\<rparr>"
  let ?f = "\<lparr>changeContext = None, oldLines = [''  pass''],
              newLines = [''  return 1''], isEndOfFile = False\<rparr>"
  let ?st0 = "(0 :: nat, [] :: Replacement list)"
  let ?st' = "(3 :: nat, [\<lparr>r_start = 2, r_length = 1, r_newLines = [''  return 1'']\<rparr>])"
  let ?st2 = "(3 :: nat, [\<lparr>r_start = 1, r_length = 1, r_newLines = [''def g():'']\<rparr>,
                  \<lparr>r_start = 2, r_length = 1, r_newLines = [''  return 1'']\<rparr>])"
  have h: "changeContext ?c = Some ''def f():'' \<and> ''def f():'' \<noteq> []
           \<and> seekSequence ?lines [''def f():''] 0 = Some 1"
    by code_simp
  have g: "changeContext ?d = None \<or> changeContext ?d = Some []
           \<or> (changeContext ?d = Some ''nowhere'' \<and> seekSequence ?lines [''nowhere''] 0 = None)"
    by code_simp
  have g': "changeContext ?d = Some ''nowhere'' \<and> seekSequence ?lines [''nowhere''] (fst ?st0) = None"
    by code_simp
  have p: "processChunk ?lines ?c ?st0 = Inr ?st'"
    by code_simp
  have q: "processChunks ?lines ([?e] @ [?f]) ?st0 = Inr ?st2"
    by code_simp
  have m: "oldLines ?c \<noteq> []
           \<and> seekSequence ?lines (chunkPattern ?c) (contextCursor ?lines ?c (fst ?st0)) = Some 2"
    by code_simp
  have a: "contextCursor ?lines ?c 0 = 1 + 1"
    by (rule cursor_never_rewinds [THEN conjunct2, THEN conjunct2, THEN conjunct1, rule_format, OF h])
  have b: "contextCursor ?lines ?d 0 = 0"
    by (rule cursor_never_rewinds [THEN conjunct2, THEN conjunct2, THEN conjunct2, THEN conjunct1,
          rule_format, OF g])
  have c: "fst ?st0 \<le> fst ?st'"
    by (rule cursor_never_rewinds [THEN conjunct1, rule_format, OF p])
  have d: "\<exists>st1. processChunks ?lines [?e] ?st0 = Inr st1 \<and> fst ?st0 \<le> fst st1 \<and> fst st1 \<le> fst ?st2"
    by (rule cursor_never_rewinds [THEN conjunct2, THEN conjunct1, rule_format, OF q])
  have e: "processChunk ?lines ?d ?st0 = processChunk ?lines (?d\<lparr>changeContext := None\<rparr>) ?st0"
    by (rule cursor_never_rewinds [THEN conjunct2, THEN conjunct2, THEN conjunct2, THEN conjunct2,
          THEN conjunct1, rule_format, OF g'])
  have f: "\<exists>replacements. processChunk ?lines ?c ?st0 = Inr (2 + length (chunkPattern ?c), replacements)"
    by (rule cursor_never_rewinds [THEN conjunct2, THEN conjunct2, THEN conjunct2, THEN conjunct2,
          THEN conjunct2, rule_format, OF m])
  show ?thesis using h g' p q a b c d e f by simp
qed

text \<open>
  The claim without the restriction to non-empty hints fails: the hint \<^verbatim>\<open>""\<close> (parsed
  from a line \<^verbatim>\<open>"@@ "\<close>) is found by the line matcher at index 1 of these lines, yet the
  cursor stays at 0, and the first \<^verbatim>\<open>x\<close> is the one replaced.
\<close>

theorem empty_hint_counterexample:
  "parsePatch (''*** Begin Patch'' @ [NL] @ ''*** Update File: f.txt'' @ [NL] @ ''@@ '' @ [NL]
      @ ''-x'' @ [NL] @ ''+y'' @ [NL] @ ''*** End Patch'')
     = Some (Inr [Update ''f.txt'' None
         [\<lparr>changeContext = Some [], oldLines = [''x''], newLines = [''y''],
           isEndOfFile = False\<rparr>]])
   \<and> seekSequence [''x'', [], ''x''] [[]] 0 = Some 1
   \<and> contextCursor [''x'', [], ''x'']
        \<lparr>changeContext = Some [], oldLines = [''x''], newLines = [''y''],
          isEndOfFile = False\<rparr> 0 = 0
   \<and> applyUpdateChunks (''x'' @ [NL, NL] @ ''x'' @ [NL])
        [\<lparr>changeContext = Some [], oldLines = [''x''], newLines = [''y''],
          isEndOfFile = False\<rparr>] = Inr (''y'' @ [NL, NL] @ ''x'' @ [NL])"
  by code_simp


lemma chunkPattern_Nil: "oldLines chunk = [] \<Longrightarrow> chunkPattern chunk = []"
  by (simp add: chunkPattern_def)

section \<open>The applier: the final newline\<close>

lemma split_nl_ne: "split_nl s \<noteq> []"
  by (induction s) (auto split: list.splits)

lemma newlineFree_split_nl: "newlineFree (split_nl s)"
proof (induction s)
  case Nil
  show ?case by (simp add: newlineFree_def)
next
  case (Cons c cs)
  then show ?case
    using split_nl_ne [of cs] by (auto simp: newlineFree_def split: list.splits)
qed

lemma newlineFree_butlast: "newlineFree xs \<Longrightarrow> newlineFree (butlast xs)"
  by (auto simp: newlineFree_def dest: in_set_butlastD)

lemma newlineFree_fileLines: "newlineFree (fileLines content)"
  using newlineFree_split_nl [of content]
  by (simp add: fileLines_def Let_def newlineFree_butlast)

lemma newlineFree_chunkNewLines:
  "newlineFree (newLines chunk) \<Longrightarrow> newlineFree (chunkNewLines chunk)"
  by (simp add: chunkNewLines_def newlineFree_butlast)

lemma processChunk_newlineFree:
  assumes "processChunk lines chunk st = Inr st'"
      and "\<forall>r \<in> set (snd st). newlineFree (r_newLines r)"
      and "newlineFree (newLines chunk)"
  shows "\<forall>r \<in> set (snd st'). newlineFree (r_newLines r)"
  using assms newlineFree_chunkNewLines [of chunk]
  by (auto simp: processChunk_def Let_def split: if_splits option.splits)

lemma processChunks_newlineFree:
  assumes "processChunks lines chunks st = Inr st'"
      and "\<forall>r \<in> set (snd st). newlineFree (r_newLines r)"
      and "\<forall>c \<in> set chunks. newlineFree (newLines c)"
  shows "\<forall>r \<in> set (snd st'). newlineFree (r_newLines r)"
  using assms
proof (induction chunks arbitrary: st)
  case Nil
  then show ?case by simp
next
  case (Cons c cs)
  from Cons.prems(1) obtain st1 where 1: "processChunk lines c st = Inr st1"
    and 2: "processChunks lines cs st1 = Inr st'"
    by (auto split: sum.splits)
  from processChunk_newlineFree [OF 1 Cons.prems(2)] Cons.prems(3)
  have "\<forall>r \<in> set (snd st1). newlineFree (r_newLines r)" by simp
  from Cons.IH [OF 2 this] Cons.prems(3) show ?case by simp
qed

lemma newlineFree_splice:
  assumes "newlineFree lines" and "newlineFree (r_newLines r)"
  shows "newlineFree (splice lines r)"
  using assms by (auto simp: newlineFree_def splice_def dest: in_set_takeD in_set_dropD)

lemma newlineFree_applyReplacements:
  assumes "newlineFree lines" and "\<forall>r \<in> set rs. newlineFree (r_newLines r)"
  shows "newlineFree (applyReplacements rs lines)"
  using assms unfolding applyReplacements_def
  by (induction rs arbitrary: lines) (simp_all add: newlineFree_splice)

lemma newlineFree_updatedLines:
  assumes "updatedLines content chunks = Inr buf"
      and "\<forall>c \<in> set chunks. newlineFree (newLines c)"
  shows "newlineFree buf"
proof -
  from assms(1) obtain st where st: "processChunks (fileLines content) chunks (0, []) = Inr st"
    and buf: "buf = applyReplacements (sortReplacements (snd st)) (fileLines content)"
    by (auto simp: updatedLines_def Let_def split: sum.splits)
  from processChunks_newlineFree [OF st _ assms(2)]
  have "\<forall>r \<in> set (sortReplacements (snd st)). newlineFree (r_newLines r)"
    by (simp add: sortReplacements_def)
  from newlineFree_applyReplacements [OF newlineFree_fileLines this] buf show ?thesis by simp
qed

lemma join_nl_snoc: "xs \<noteq> [] \<Longrightarrow> join_nl (xs @ [y]) = join_nl xs @ NL # y"
  by (induction xs rule: join_nl.induct) simp_all

lemma join_nl_last:
  assumes "xs \<noteq> []" and "last xs \<noteq> []"
  shows "join_nl xs \<noteq> [] \<and> last (join_nl xs) = last (last xs)"
  using assms by (induction xs rule: join_nl.induct) simp_all

text \<open>
  The lines of a parsed patch hold no newline, the input being split at the newlines: so
  do the new lines of every chunk of every update operation that \<open>parsePatch\<close> returns.
\<close>

lemma newlineFree_snoc:
  "newlineFree xs \<Longrightarrow> NL \<notin> set x \<Longrightarrow> newlineFree (xs @ [x])"
  by (simp add: newlineFree_def)

lemma newlineFree_drop1:
  "newlineFree lines \<Longrightarrow> i < length lines \<Longrightarrow> NL \<notin> set (drop 1 (lines ! i))"
  by (auto simp: newlineFree_def dest: in_set_dropD)

lemma newLines_push:
  "newLines (pushBoth content chunk) = newLines chunk @ [content]"
  "newLines (pushOld content chunk) = newLines chunk"
  "newLines (pushNew content chunk) = newLines chunk @ [content]"
  by (simp_all add: pushBoth_def pushOld_def pushNew_def)

lemma chunkBody_newlineFree:
  "chunkBody lines i chunk hasContent = Inr (chunk', i') \<Longrightarrow> newlineFree lines \<Longrightarrow>
     newlineFree (newLines chunk) \<Longrightarrow> newlineFree (newLines chunk')"
proof (induction lines i chunk hasContent rule: chunkBody.induct)
  case (1 lines i chunk hasContent)
  note step = chunkBody.simps [of lines i chunk hasContent]
  show ?case
  proof (cases "i < length lines")
    case False
    with "1.prems" show ?thesis by (simp add: step)
  next
    case True
    note d = newlineFree_drop1 [OF "1.prems"(2) True]
    have both: "newlineFree (newLines (pushBoth (drop 1 (lines ! i)) chunk))"
      and new: "newlineFree (newLines (pushNew (drop 1 (lines ! i)) chunk))"
      and old: "newlineFree (newLines (pushOld (drop 1 (lines ! i)) chunk))"
      and blank: "newlineFree (newLines (pushBoth [] chunk))"
      using d "1.prems"(3) by (simp_all add: newLines_push newlineFree_snoc)
    from "1.prems"(1) True show ?thesis
      using "1.IH"(1) [OF True _ _ _ _ "1.prems"(2) both]
        "1.IH"(2) [OF True _ _ _ _ _ "1.prems"(2) old]
        "1.IH"(3) [OF True _ _ _ _ _ _ "1.prems"(2) new]
        "1.IH"(4) [OF True _ _ _ _ _ _ _ "1.prems"(2) blank]
        "1.prems"(3)
      by (auto simp: step split: if_splits)
  qed
qed

lemma parseUpdateFileChunk_newlineFree:
  assumes "parseUpdateFileChunk lines i = Inr (chunk, consumed)" and "newlineFree lines"
  shows "newlineFree (newLines chunk)"
proof -
  have e: "newlineFree (newLines (emptyChunk ctx))" for ctx
    by (simp add: emptyChunk_def newlineFree_def)
  from assms(1) obtain ctx j i' where "chunkBody lines j (emptyChunk ctx) False = Inr (chunk, i')"
    by (auto simp: parseUpdateFileChunk_def Let_def split: if_splits sum.splits prod.splits)
  from chunkBody_newlineFree [OF this assms(2) e] show ?thesis .
qed

lemma chunksLoop_newlineFree:
  assumes "chunksLoop lines i chunks = Some r"
  shows "newlineFree lines \<longrightarrow> (\<forall>c \<in> set chunks. newlineFree (newLines c)) \<longrightarrow>
           (\<forall>cs i'. r = Inr (cs, i') \<longrightarrow> (\<forall>c \<in> set cs. newlineFree (newLines c)))"
  apply (rule chunksLoop.raw_induct
      [where P = "\<lambda>lines i chunks r. newlineFree lines \<longrightarrow>
           (\<forall>c \<in> set chunks. newlineFree (newLines c)) \<longrightarrow>
           (\<forall>cs i'. r = Inr (cs, i') \<longrightarrow> (\<forall>c \<in> set cs. newlineFree (newLines c)))", OF _ assms])
  subgoal premises prems for f lines i chunks r
  proof (intro impI)
    assume nl: "newlineFree lines" and acc: "\<forall>c \<in> set chunks. newlineFree (newLines c)"
    show "\<forall>cs i'. r = Inr (cs, i') \<longrightarrow> (\<forall>c \<in> set cs. newlineFree (newLines c))"
    proof (cases "i < length lines \<and> \<not> startsWith (lines ! i) ''***''")
      case False
      with prems(2) acc show ?thesis by auto
    next
      case True
      show ?thesis
      proof (cases "trim (lines ! i) = []")
        case blank: True
        with True prems(2) have "f lines (i + 1) chunks = Some r" by simp
        from prems(1) [OF this] nl acc show ?thesis by blast
      next
        case nb: False
        show ?thesis
        proof (cases "parseUpdateFileChunk lines i")
          case (Inl e)
          with True nb prems(2) show ?thesis by auto
        next
          case (Inr p)
          obtain chunk consumed where p: "p = (chunk, consumed)" by (cases p)
          with Inr True nb prems(2) have "f lines (i + consumed) (chunks @ [chunk]) = Some r"
            by simp
          moreover from parseUpdateFileChunk_newlineFree [OF Inr [unfolded p] nl] acc
          have "\<forall>c \<in> set (chunks @ [chunk]). newlineFree (newLines c)" by simp
          ultimately show ?thesis using prems(1) nl by blast
        qed
      qed
    qed
  qed
  done

lemma parseOneHunk_newlineFree:
  assumes "parseOneHunk lines i = Some (Inr (hunk, consumed))" and "newlineFree lines"
  shows "\<forall>c \<in> set (chunksOf hunk). newlineFree (newLines c)"
  using assms chunksLoop_newlineFree [of lines _ "[]"]
  by (auto simp: parseOneHunk_def Let_def split: if_splits prod.splits option.splits sum.splits)

lemma hunksLoop_newlineFree:
  "hunksLoop lines i hunks = Some (Inr result) \<Longrightarrow> newlineFree lines \<Longrightarrow>
     \<forall>h \<in> set hunks. \<forall>c \<in> set (chunksOf h). newlineFree (newLines c) \<Longrightarrow>
     \<forall>h \<in> set result. \<forall>c \<in> set (chunksOf h). newlineFree (newLines c)"
proof (induction lines i hunks rule: hunksLoop.induct)
  case (1 lines i hunks)
  note step = hunksLoop.simps [of lines i hunks]
  show ?case
  proof (cases "i < length lines - 1")
    case False
    with "1.prems" show ?thesis by (simp add: step)
  next
    case True
    with "1.prems"(1) obtain hunk consumed where p: "parseOneHunk lines i = Some (Inr (hunk, consumed))"
      and rest: "hunksLoop lines (i + consumed) (hunks @ [hunk]) = Some (Inr result)"
      by (auto simp: step split: option.splits sum.splits prod.splits)
    from parseOneHunk_newlineFree [OF p "1.prems"(2)] "1.prems"(3)
    have "\<forall>h \<in> set (hunks @ [hunk]). \<forall>c \<in> set (chunksOf h). newlineFree (newLines c)" by simp
    from "1.IH" [OF True p refl refl rest "1.prems"(2) this] show ?thesis .
  qed
qed

lemma parsePatch_newlineFree:
  assumes "parsePatch patch = Some (Inr hunks)" and "Update filePath movePath chunks \<in> set hunks"
  shows "\<forall>c \<in> set chunks. newlineFree (newLines c)"
proof -
  from assms(1) have "hunksLoop (split_nl (trim patch)) 1 [] = Some (Inr hunks)"
    by (auto simp: parsePatch_def Let_def split: if_splits)
  from hunksLoop_newlineFree [OF this newlineFree_split_nl] assms(2)
  have "\<forall>c \<in> set (chunksOf (Update filePath movePath chunks)). newlineFree (newLines c)"
    by fastforce
  then show ?thesis by simp
qed

text \<open>
  What the last step of the update does to a buffer of lines without newlines inside.
\<close>

lemma ensured_newline:
  assumes "updatedLines content chunks = Inr buf"
      and "\<forall>c \<in> set chunks. newlineFree (newLines c)"
  shows "(buf \<noteq> [] \<and> last buf \<noteq> [] \<longrightarrow>
            applyUpdateChunks content chunks = Inr (join_nl (buf @ [[]]))
            \<and> endsWithOneNewline (join_nl (buf @ [[]])))
       \<and> (buf \<noteq> [] \<and> last buf = [] \<longrightarrow>
            applyUpdateChunks content chunks = Inr (join_nl buf)
            \<and> (endsWithOneNewline (join_nl buf) \<longleftrightarrow>
                 length buf = 2 \<or> (2 < length buf \<and> last (butlast buf) \<noteq> [])))
       \<and> (buf = [] \<longrightarrow> applyUpdateChunks content chunks = Inr [])"
proof (intro conjI impI)
  assume ne: "buf \<noteq> [] \<and> last buf \<noteq> []"
  then show "applyUpdateChunks content chunks = Inr (join_nl (buf @ [[]]))"
    using assms(1) by (simp add: applyUpdateChunks_def ensureNewline_def)
  from ne have j: "join_nl (buf @ [[]]) = join_nl buf @ [NL]" by (simp add: join_nl_snoc)
  from ne join_nl_last [of buf]
  have l: "join_nl buf \<noteq> []" "last (join_nl buf) = last (last buf)" by simp_all
  from ne have "last buf \<in> set buf" and "last (last buf) \<in> set (last buf)" by simp_all
  with newlineFree_updatedLines [OF assms] have "last (last buf) \<noteq> NL"
    by (auto simp: newlineFree_def)
  with l show "endsWithOneNewline (join_nl (buf @ [[]]))"
    by (simp add: j endsWithOneNewline_def)
next
  assume e: "buf \<noteq> [] \<and> last buf = []"
  then show "applyUpdateChunks content chunks = Inr (join_nl buf)"
    using assms(1) by (simp add: applyUpdateChunks_def ensureNewline_def)
  define pre where "pre = butlast buf"
  from e have buf: "buf = pre @ [[]]" unfolding pre_def by (metis append_butlast_last_id)
  have nf: "newlineFree pre"
    unfolding pre_def by (rule newlineFree_butlast [OF newlineFree_updatedLines [OF assms]])
  show "endsWithOneNewline (join_nl buf) \<longleftrightarrow>
          length buf = 2 \<or> (2 < length buf \<and> last (butlast buf) \<noteq> [])"
  proof (cases "pre = []")
    case True
    with buf show ?thesis by (simp add: endsWithOneNewline_def)
  next
    case False
    then have j: "join_nl buf = join_nl pre @ [NL]" by (simp add: buf join_nl_snoc)
    have bl: "butlast buf = pre" by (simp add: pre_def)
    show ?thesis
    proof (cases "last pre = []")
      case lp: True
      show ?thesis
      proof (cases "length pre = 1")
        case True
        with lp have "pre = [[]]" by (cases pre) auto
        then show ?thesis by (simp add: buf endsWithOneNewline_def)
      next
        case False
        with \<open>pre \<noteq> []\<close> have two: "2 \<le> length pre"
          by (cases pre) (auto simp: Suc_le_eq)
        define pp where "pp = butlast pre"
        from \<open>pre \<noteq> []\<close> lp have pre: "pre = pp @ [[]]" unfolding pp_def
          by (metis append_butlast_last_id)
        from two pre have "pp \<noteq> []" by auto
        then have "join_nl pre = join_nl pp @ [NL]" by (simp add: pre join_nl_snoc)
        then have "\<not> endsWithOneNewline (join_nl buf)"
          by (simp add: j endsWithOneNewline_def butlast_append)
        moreover from two have "length buf \<noteq> 2" by (simp add: buf)
        ultimately show ?thesis using lp bl by simp
      qed
    next
      case lp: False
      from join_nl_last [OF \<open>pre \<noteq> []\<close> lp]
      have l: "join_nl pre \<noteq> []" "last (join_nl pre) = last (last pre)" by simp_all
      from \<open>pre \<noteq> []\<close> lp have "last pre \<in> set pre" and "last (last pre) \<in> set (last pre)"
        by simp_all
      with nf have "last (last pre) \<noteq> NL" by (auto simp: newlineFree_def)
      with l have "endsWithOneNewline (join_nl buf)"
        by (simp add: j endsWithOneNewline_def butlast_append)
      moreover from \<open>pre \<noteq> []\<close> have "length buf = 2 \<or> 2 < length buf"
        by (cases pre) (auto simp: buf)
      ultimately show ?thesis using lp bl by auto
    qed
  qed
next
  assume "buf = []"
  then show "applyUpdateChunks content chunks = Inr []"
    using assms(1) by (simp add: applyUpdateChunks_def ensureNewline_def)
qed

text \<open>
  C3, as the code has it. For an update operation of a parsed patch that succeeds on a
  file, with \<open>buf\<close> the line buffer after all replacements: if \<open>buf\<close> is not empty and its
  last line is not empty, one empty element is appended before the lines are joined, and
  the text returned ends with exactly one newline; if \<open>buf\<close> is not empty and its last
  line is empty, nothing is appended, the text returned is the lines of \<open>buf\<close> joined, and
  it ends with exactly one newline exactly when \<open>buf\<close> has two elements, or more than two
  and a non-empty one before the last; if \<open>buf\<close> is empty, nothing is appended and the
  text returned is empty.
\<close>

theorem trailing_newline:
  assumes "parsePatch patch = Some (Inr hunks)"
      and "Update filePath movePath chunks \<in> set hunks"
      and "updatedLines content chunks = Inr buf"
  shows "(buf \<noteq> [] \<and> last buf \<noteq> [] \<longrightarrow>
            applyUpdateChunks content chunks = Inr (join_nl (buf @ [[]]))
            \<and> endsWithOneNewline (join_nl (buf @ [[]])))
       \<and> (buf \<noteq> [] \<and> last buf = [] \<longrightarrow>
            applyUpdateChunks content chunks = Inr (join_nl buf)
            \<and> (endsWithOneNewline (join_nl buf) \<longleftrightarrow>
                 length buf = 2 \<or> (2 < length buf \<and> last (butlast buf) \<noteq> [])))
       \<and> (buf = [] \<longrightarrow> applyUpdateChunks content chunks = Inr [])"
  using ensured_newline [OF assms(3) parsePatch_newlineFree [OF assms(1,2)]] .

theorem trailing_newline_witness:
  "parsePatch (''*** Begin Patch'' @ [NL] @ ''*** Update File: f.txt'' @ [NL] @ ''-foo'' @ [NL]
      @ ''+bar'' @ [NL] @ ''+baz'' @ [NL] @ ''*** Update File: g.txt'' @ [NL] @ ''-foo'' @ [NL]
      @ ''*** End Patch'')
     = Some (Inr
         [Update ''f.txt'' None
            [\<lparr>changeContext = None, oldLines = [''foo''], newLines = [''bar'', ''baz''],
              isEndOfFile = False\<rparr>],
          Update ''g.txt'' None
            [\<lparr>changeContext = None, oldLines = [''foo''], newLines = [],
              isEndOfFile = False\<rparr>]])
   \<and> updatedLines ''foo''
        [\<lparr>changeContext = None, oldLines = [''foo''], newLines = [''bar'', ''baz''],
          isEndOfFile = False\<rparr>] = Inr [''bar'', ''baz'']
   \<and> [''bar'', ''baz''] \<noteq> [] \<and> last [''bar'', ''baz''] \<noteq> []
   \<and> applyUpdateChunks ''foo''
        [\<lparr>changeContext = None, oldLines = [''foo''], newLines = [''bar'', ''baz''],
          isEndOfFile = False\<rparr>] = Inr (''bar'' @ [NL] @ ''baz'' @ [NL])
   \<and> endsWithOneNewline (''bar'' @ [NL] @ ''baz'' @ [NL])
   \<and> updatedLines (''foo'' @ [NL])
        [\<lparr>changeContext = None, oldLines = [''foo''], newLines = [], isEndOfFile = False\<rparr>]
       = Inr []
   \<and> applyUpdateChunks (''foo'' @ [NL])
        [\<lparr>changeContext = None, oldLines = [''foo''], newLines = [], isEndOfFile = False\<rparr>]
       = Inr []
   \<and> updatedLines (''foo'' @ [NL, NL])
        [\<lparr>changeContext = None, oldLines = [''foo''], newLines = [''bar'', ''baz''],
          isEndOfFile = False\<rparr>] = Inr [''bar'', ''baz'', []]
   \<and> [''bar'', ''baz'', []] \<noteq> [] \<and> last [''bar'', ''baz'', []] = ([] :: string)
   \<and> applyUpdateChunks (''foo'' @ [NL, NL])
        [\<lparr>changeContext = None, oldLines = [''foo''], newLines = [''bar'', ''baz''],
          isEndOfFile = False\<rparr>] = Inr (''bar'' @ [NL] @ ''baz'' @ [NL])
   \<and> updatedLines (''foo'' @ [NL, NL, NL])
        [\<lparr>changeContext = None, oldLines = [''foo''], newLines = [''bar'', ''baz''],
          isEndOfFile = False\<rparr>] = Inr [''bar'', ''baz'', [], []]
   \<and> applyUpdateChunks (''foo'' @ [NL, NL, NL])
        [\<lparr>changeContext = None, oldLines = [''foo''], newLines = [''bar'', ''baz''],
          isEndOfFile = False\<rparr>] = Inr (''bar'' @ [NL] @ ''baz'' @ [NL, NL])
   \<and> \<not> endsWithOneNewline (''bar'' @ [NL] @ ''baz'' @ [NL, NL])"
proof -
  let ?patch = "''*** Begin Patch'' @ [NL] @ ''*** Update File: f.txt'' @ [NL] @ ''-foo'' @ [NL]
      @ ''+bar'' @ [NL] @ ''+baz'' @ [NL] @ ''*** Update File: g.txt'' @ [NL] @ ''-foo'' @ [NL]
      @ ''*** End Patch''"
  let ?c = "\<lparr>changeContext = None, oldLines = [''foo''], newLines = [''bar'', ''baz''],
              isEndOfFile = False\<rparr>"
  let ?d = "\<lparr>changeContext = None, oldLines = [''foo''], newLines = [], isEndOfFile = False\<rparr>"
  let ?hunks = "[Update ''f.txt'' None [?c], Update ''g.txt'' None [?d]]"
  have p: "parsePatch ?patch = Some (Inr ?hunks)" by code_simp
  have m: "Update ''f.txt'' None [?c] \<in> set ?hunks"
    and m': "Update ''g.txt'' None [?d] \<in> set ?hunks" by simp_all
  have u: "updatedLines ''foo'' [?c] = Inr [''bar'', ''baz'']" by code_simp
  have v: "updatedLines (''foo'' @ [NL]) [?d] = Inr []" by code_simp
  have w: "updatedLines (''foo'' @ [NL, NL]) [?c] = Inr [''bar'', ''baz'', []]" by code_simp
  have x: "updatedLines (''foo'' @ [NL, NL, NL]) [?c] = Inr [''bar'', ''baz'', [], []]"
    by code_simp
  have ne: "[''bar'', ''baz''] \<noteq> [] \<and> last [''bar'', ''baz''] \<noteq> []" by simp
  have e3: "[''bar'', ''baz'', []] \<noteq> [] \<and> last [''bar'', ''baz'', []] = ([] :: string)" by simp
  have e4: "[''bar'', ''baz'', [], []] \<noteq> [] \<and> last [''bar'', ''baz'', [], []] = ([] :: string)"
    by simp
  have a: "applyUpdateChunks ''foo'' [?c] = Inr (join_nl ([''bar'', ''baz''] @ [[]]))
           \<and> endsWithOneNewline (join_nl ([''bar'', ''baz''] @ [[]]))"
    by (rule trailing_newline [OF p m u, THEN conjunct1, rule_format, OF ne])
  have b: "applyUpdateChunks (''foo'' @ [NL]) [?d] = Inr []"
    by (rule trailing_newline [OF p m' v, THEN conjunct2, THEN conjunct2, rule_format]) simp
  have c: "applyUpdateChunks (''foo'' @ [NL, NL]) [?c] = Inr (join_nl [''bar'', ''baz'', []])
           \<and> (endsWithOneNewline (join_nl [''bar'', ''baz'', []]) \<longleftrightarrow>
                length [''bar'', ''baz'', []] = 2
                \<or> (2 < length [''bar'', ''baz'', []] \<and> last (butlast [''bar'', ''baz'', []]) \<noteq> []))"
    by (rule trailing_newline [OF p m w, THEN conjunct2, THEN conjunct1, rule_format, OF e3])
  have d: "applyUpdateChunks (''foo'' @ [NL, NL, NL]) [?c] = Inr (join_nl [''bar'', ''baz'', [], []])
           \<and> (endsWithOneNewline (join_nl [''bar'', ''baz'', [], []]) \<longleftrightarrow>
                length [''bar'', ''baz'', [], []] = 2
                \<or> (2 < length [''bar'', ''baz'', [], []]
                    \<and> last (butlast [''bar'', ''baz'', [], []]) \<noteq> []))"
    by (rule trailing_newline [OF p m x, THEN conjunct2, THEN conjunct1, rule_format, OF e4])
  show ?thesis using p u v w x a b c d by simp
qed

text \<open>
  The claim fails where the buffer is empty: deleting the only line of a file gives the
  empty text, which ends with no newline. It also fails where the buffer already ends
  with empty lines: nothing is appended or removed, and the text ends with two newlines.
\<close>

theorem no_trailing_newline_counterexample:
  "parsePatch (''*** Begin Patch'' @ [NL] @ ''*** Update File: f.txt'' @ [NL] @ ''-foo'' @ [NL]
      @ ''*** End Patch'')
     = Some (Inr [Update ''f.txt'' None
         [\<lparr>changeContext = None, oldLines = [''foo''], newLines = [], isEndOfFile = False\<rparr>]])
   \<and> applyUpdateChunks (''foo'' @ [NL])
     [\<lparr>changeContext = None, oldLines = [''foo''], newLines = [], isEndOfFile = False\<rparr>]
     = Inr []
   \<and> \<not> endsWithOneNewline []
   \<and> parsePatch (''*** Begin Patch'' @ [NL] @ ''*** Update File: f.txt'' @ [NL] @ ''-a'' @ [NL]
      @ ''+b'' @ [NL] @ ''*** End Patch'')
     = Some (Inr [Update ''f.txt'' None
         [\<lparr>changeContext = None, oldLines = [''a''], newLines = [''b''], isEndOfFile = False\<rparr>]])
   \<and> applyUpdateChunks (''a'' @ [NL, NL, NL])
        [\<lparr>changeContext = None, oldLines = [''a''], newLines = [''b''], isEndOfFile = False\<rparr>]
       = Inr (''b'' @ [NL, NL])
   \<and> \<not> endsWithOneNewline (''b'' @ [NL, NL])"
  by code_simp

section \<open>The applier: applying an update twice\<close>












section \<open>The applier: the order of the replacements\<close>

text \<open>
  Where every chunk has a non-empty pattern, the spans queued are in the order of the
  file and disjoint, the sort reverses the queue, and splicing from the last span to the
  first replaces each span at its position in the original lines.
\<close>

lemma ascending_starts: "ascending pos rs n \<Longrightarrow> \<forall>r \<in> set rs. pos \<le> r_start r"
proof (induction rs arbitrary: pos)
  case Nil
  then show ?case by simp
next
  case (Cons a rs)
  from Cons.prems have "ascending (r_start a + r_length a) rs n" and "pos \<le> r_start a" by simp_all
  with Cons.IH [of "r_start a + r_length a"] show ?case by fastforce
qed

lemma insort_key_last:
  "\<forall>y \<in> set ys. f y < f a \<Longrightarrow> insort_key f a ys = ys @ [a]"
  by (induction ys) auto

lemma sortReplacements_ascending:
  "ascending pos rs n \<Longrightarrow> sortReplacements rs = rev rs"
proof (induction rs arbitrary: pos)
  case Nil
  show ?case by (simp add: sortReplacements_def)
next
  case (Cons a rs)
  from Cons.prems have asc: "ascending (r_start a + r_length a) rs n" and pos: "0 < r_length a"
    by simp_all
  from ascending_starts [OF asc] pos
  have "\<forall>y \<in> set (rev rs). - int (r_start y) < - int (r_start a)" by fastforce
  then have "insort_key (\<lambda>r. - int (r_start r)) a (rev rs) = rev rs @ [a]"
    by (rule insort_key_last)
  with Cons.IH [OF asc] show ?case by (simp add: sortReplacements_def)
qed

lemma foldr_splice_rebuild:
  "ascending pos rs (length lines) \<Longrightarrow> pos \<le> length lines \<Longrightarrow>
     foldr (\<lambda>r l. splice l r) rs lines = take pos lines @ rebuild pos rs lines"
proof (induction rs arbitrary: pos)
  case Nil
  show ?case by simp
next
  case (Cons a rs)
  let ?e = "r_start a + r_length a"
  from Cons.prems have asc: "ascending ?e rs (length lines)" and e: "?e \<le> length lines"
    and p: "pos \<le> r_start a" by simp_all
  from Cons.IH [OF asc e]
  have IH: "foldr (\<lambda>r l. splice l r) rs lines = take ?e lines @ rebuild ?e rs lines" .
  have len: "length (take ?e lines) = ?e" using e by simp
  have t: "take (r_start a) (take ?e lines @ rebuild ?e rs lines) = take (r_start a) lines"
    using e by (simp add: min_def)
  have d: "drop ?e (take ?e lines @ rebuild ?e rs lines) = rebuild ?e rs lines"
    using len by simp
  have s: "take pos lines @ take (r_start a - pos) (drop pos lines) = take (r_start a) lines"
    using p take_add [of pos "r_start a - pos" lines] by simp
  have "foldr (\<lambda>r l. splice l r) (a # rs) lines
          = splice (take ?e lines @ rebuild ?e rs lines) a"
    by (simp add: IH)
  also have "\<dots> = take (r_start a) lines @ r_newLines a @ rebuild ?e rs lines"
    unfolding splice_def t d ..
  also have "\<dots> = take pos lines @ rebuild pos (a # rs) lines"
    using s by (simp flip: append_assoc)
  finally show ?case .
qed

lemma applyReplacements_rebuild:
  assumes "ascending 0 rs (length lines)"
  shows "applyReplacements (sortReplacements rs) lines = rebuild 0 rs lines"
proof -
  have "applyReplacements (sortReplacements rs) lines = foldl splice lines (rev rs)"
    by (simp add: applyReplacements_def sortReplacements_ascending [OF assms])
  also have "\<dots> = foldr (\<lambda>r l. splice l r) rs lines"
    by (simp add: foldr_conv_foldl)
  also have "\<dots> = rebuild 0 rs lines"
    using foldr_splice_rebuild [OF assms] by simp
  finally show ?thesis .
qed

lemma ascending_snoc:
  assumes "ascending pos rs n" and "max pos (endOf rs) \<le> r_start r" and "0 < r_length r"
      and "r_start r + r_length r \<le> n"
  shows "ascending pos (rs @ [r]) n"
  using assms
proof (induction rs arbitrary: pos)
  case Nil
  then show ?case by simp
next
  case (Cons a rs)
  let ?e = "r_start a + r_length a"
  from Cons.prems(1) have asc: "ascending ?e rs n" by simp
  have "max ?e (endOf rs) \<le> r_start r"
  proof (cases "rs = []")
    case True
    with Cons.prems(2) show ?thesis by (simp add: endOf_def)
  next
    case False
    then have "last rs \<in> set rs" by simp
    with ascending_starts [OF asc] have "?e \<le> r_start (last rs)" by blast
    with False Cons.prems(2) show ?thesis by (simp add: endOf_def)
  qed
  from Cons.IH [OF asc this Cons.prems(3,4)] Cons.prems(1) show ?case by simp
qed

lemma seekSequence_inside:
  assumes "seekSequence lines pattern start = Some m" and "pattern \<noteq> []"
  shows "m + length pattern \<le> length lines"
proof (cases "length pattern > length lines")
  case True
  with assms show ?thesis by (simp add: seekSequence_def)
next
  case False
  then have le: "length pattern \<le> length lines" by simp
  from False assms have "seekLoop lines pattern start = Some m" by (simp add: seekSequence_def)
  then show ?thesis by (simp add: seekLoop_Some [OF le] matchesAt_def)
qed

lemma processChunk_ascending:
  assumes "processChunk lines chunk st = Inr st'"
      and "chunkPattern chunk \<noteq> []"
      and "ascending 0 (snd st) (length lines)" and "endOf (snd st) \<le> fst st"
  shows "ascending 0 (snd st') (length lines) \<and> endOf (snd st') \<le> fst st'"
proof -
  from assms(2) have old: "oldLines chunk \<noteq> []" using chunkPattern_Nil by blast
  let ?cur = "contextCursor lines chunk (fst st)"
  from assms(1) old obtain m where m: "seekSequence lines (chunkPattern chunk) ?cur = Some m"
    by (cases "seekSequence lines (chunkPattern chunk) ?cur") (simp_all add: processChunk_miss)
  let ?r = "\<lparr>r_start = m, r_length = length (chunkPattern chunk), r_newLines = chunkNewLines chunk\<rparr>"
  from processChunk_found [OF old m] assms(1)
  have st': "st' = (m + length (chunkPattern chunk), snd st @ [?r])" by simp
  from seekSequence_ge [OF m] contextCursor_ge [of "fst st" lines chunk] assms(4)
  have "max 0 (endOf (snd st)) \<le> r_start ?r" by simp
  moreover have "0 < r_length ?r" using assms(2) by simp
  moreover have "r_start ?r + r_length ?r \<le> length lines"
    using seekSequence_inside [OF m assms(2)] by simp
  ultimately have "ascending 0 (snd st @ [?r]) (length lines)"
    by (rule ascending_snoc [OF assms(3)])
  then show ?thesis by (simp add: st' endOf_def)
qed

lemma processChunks_ascending:
  assumes "processChunks lines chunks st = Inr st'"
      and "\<forall>c \<in> set chunks. chunkPattern c \<noteq> []"
      and "ascending 0 (snd st) (length lines)" and "endOf (snd st) \<le> fst st"
  shows "ascending 0 (snd st') (length lines)"
  using assms
proof (induction chunks arbitrary: st)
  case Nil
  then show ?case by simp
next
  case (Cons c cs)
  from Cons.prems(1) obtain st1 where 1: "processChunk lines c st = Inr st1"
    and 2: "processChunks lines cs st1 = Inr st'"
    by (auto split: sum.splits)
  from Cons.prems(2) have c: "chunkPattern c \<noteq> []" and cs: "\<forall>c \<in> set cs. chunkPattern c \<noteq> []"
    by simp_all
  from processChunk_ascending [OF 1 c Cons.prems(3,4)]
  have "ascending 0 (snd st1) (length lines)" and "endOf (snd st1) \<le> fst st1" by simp_all
  from Cons.IH [OF 2 cs this] show ?case .
qed

lemma updatedLines_rebuild:
  assumes "processChunks (fileLines content) chunks (0, []) = Inr st"
      and "\<forall>c \<in> set chunks. chunkPattern c \<noteq> []"
  shows "updatedLines content chunks = Inr (rebuild 0 (snd st) (fileLines content))"
proof -
  have "ascending 0 (snd st) (length (fileLines content))"
    by (rule processChunks_ascending [OF assms]) (simp_all add: endOf_def)
  then show ?thesis
    using assms(1) by (simp add: updatedLines_def applyReplacements_rebuild)
qed

text \<open>Two single-line edits in different regions, as two chunks of one update.\<close>

lemma two_edits:
  "applyUpdateChunks (''a'' @ [NL] @ ''b'' @ [NL] @ ''c'' @ [NL] @ ''d'' @ [NL] @ ''e'' @ [NL])
     [\<lparr>changeContext = None, oldLines = [''b''], newLines = [''B1'', ''B2''], isEndOfFile = False\<rparr>,
      \<lparr>changeContext = None, oldLines = [''d''], newLines = [''D''], isEndOfFile = False\<rparr>]
   = Inr (''a'' @ [NL] @ ''B1'' @ [NL] @ ''B2'' @ [NL] @ ''c'' @ [NL] @ ''D'' @ [NL] @ ''e'' @ [NL])"
  by code_simp

text \<open>
  C2 fails on the code. A chunk whose old lines are one empty line, not at the end of the
  file, has the empty pattern after normalisation, which the line matcher finds at the
  cursor: it queues an insertion of length 0 there and leaves the cursor. When the next
  chunk matches at that same index, the two replacements have equal starts, the stable
  sort keeps the insertion first, and the second splice then removes the line just
  inserted instead of the matched one. Here the file holds \<^verbatim>\<open>bar\<close>; the chunks insert
  \<^verbatim>\<open>foo\<close> and replace \<^verbatim>\<open>bar\<close> by \<^verbatim>\<open>baz\<close>; the result is \<^verbatim>\<open>baz\<close>, \<^verbatim>\<open>bar\<close>, where the
  replacement of each span at its position in the original lines gives \<^verbatim>\<open>foo\<close>, \<^verbatim>\<open>baz\<close>.
\<close>

theorem equal_starts_corrupt_offsets:
  "parsePatch (''*** Begin Patch'' @ [NL] @ ''*** Update File: f.txt'' @ [NL] @ ''@@'' @ [NL]
      @ ''+foo'' @ [NL] @ [NL] @ ''@@'' @ [NL] @ ''-bar'' @ [NL] @ ''+baz'' @ [NL]
      @ ''*** End Patch'')
     = Some (Inr [Update ''f.txt'' None
         [\<lparr>changeContext = None, oldLines = [[]], newLines = [''foo'', []], isEndOfFile = False\<rparr>,
          \<lparr>changeContext = None, oldLines = [''bar''], newLines = [''baz''], isEndOfFile = False\<rparr>]])
   \<and> processChunks (fileLines (''bar'' @ [NL]))
         [\<lparr>changeContext = None, oldLines = [[]], newLines = [''foo'', []], isEndOfFile = False\<rparr>,
          \<lparr>changeContext = None, oldLines = [''bar''], newLines = [''baz''], isEndOfFile = False\<rparr>]
         (0, [])
       = Inr (1, [\<lparr>r_start = 0, r_length = 0, r_newLines = [''foo'']\<rparr>,
                  \<lparr>r_start = 0, r_length = 1, r_newLines = [''baz'']\<rparr>])
   \<and> sortReplacements [\<lparr>r_start = 0, r_length = 0, r_newLines = [''foo'']\<rparr>,
                        \<lparr>r_start = 0, r_length = 1, r_newLines = [''baz'']\<rparr>]
       = [\<lparr>r_start = 0, r_length = 0, r_newLines = [''foo'']\<rparr>,
          \<lparr>r_start = 0, r_length = 1, r_newLines = [''baz'']\<rparr>]
   \<and> applyUpdateChunks (''bar'' @ [NL])
         [\<lparr>changeContext = None, oldLines = [[]], newLines = [''foo'', []], isEndOfFile = False\<rparr>,
          \<lparr>changeContext = None, oldLines = [''bar''], newLines = [''baz''], isEndOfFile = False\<rparr>]
       = Inr (''baz'' @ [NL] @ ''bar'' @ [NL])"
  by code_simp

section \<open>The envelope and the hunk headers\<close>

lemma hunksLoop_done:
  "\<not> i < length lines - 1 \<Longrightarrow> hunksLoop lines i hunks = Some (Inr hunks)"
  by (simp add: hunksLoop.simps [of lines i hunks])

text \<open>
  C9. With \<open>lines\<close> the lines of the trimmed input: the parse fails with a format error
  whenever there are fewer than two lines, or the first line is not the begin marker, or
  the last line is not the end marker; and an envelope with no hunk, the two markers and
  nothing between them, parses to the empty list of operations.
\<close>

theorem parsePatch_envelope:
  "(length (split_nl (trim patch)) < 2
      \<or> split_nl (trim patch) ! 0 \<noteq> BEGIN_PATCH_MARKER
      \<or> split_nl (trim patch) ! (length (split_nl (trim patch)) - 1) \<noteq> END_PATCH_MARKER
    \<longrightarrow> isFormatError (parsePatch patch))
   \<and> (split_nl (trim patch) = [BEGIN_PATCH_MARKER, END_PATCH_MARKER]
        \<longrightarrow> parsePatch patch = Some (Inr []))"
proof (intro conjI impI)
  assume "length (split_nl (trim patch)) < 2
      \<or> split_nl (trim patch) ! 0 \<noteq> BEGIN_PATCH_MARKER
      \<or> split_nl (trim patch) ! (length (split_nl (trim patch)) - 1) \<noteq> END_PATCH_MARKER"
  then show "isFormatError (parsePatch patch)"
    by (auto simp: parsePatch_def Let_def isFormatError_def createError_def)
next
  assume e: "split_nl (trim patch) = [BEGIN_PATCH_MARKER, END_PATCH_MARKER]"
  have "hunksLoop [BEGIN_PATCH_MARKER, END_PATCH_MARKER] 1 [] = Some (Inr [])"
    by (rule hunksLoop_done) simp
  with e show "parsePatch patch = Some (Inr [])"
    by (simp add: parsePatch_def)
qed

theorem parsePatch_envelope_witness:
  "length (split_nl (trim ''bad'')) < 2
   \<and> isFormatError (parsePatch ''bad'')
   \<and> split_nl (trim (''*** Begin Patch'' @ [NL] @ ''bad'')) ! 0 = BEGIN_PATCH_MARKER
   \<and> split_nl (trim (''*** Begin Patch'' @ [NL] @ ''bad''))
        ! (length (split_nl (trim (''*** Begin Patch'' @ [NL] @ ''bad''))) - 1) \<noteq> END_PATCH_MARKER
   \<and> isFormatError (parsePatch (''*** Begin Patch'' @ [NL] @ ''bad''))
   \<and> split_nl (trim (''*** Begin Patch'' @ [NL] @ ''*** End Patch'' @ [NL]))
       = [BEGIN_PATCH_MARKER, END_PATCH_MARKER]
   \<and> parsePatch (''*** Begin Patch'' @ [NL] @ ''*** End Patch'' @ [NL]) = Some (Inr [])"
proof -
  have a: "length (split_nl (trim ''bad'')) < 2" by code_simp
  have b: "split_nl (trim (''*** Begin Patch'' @ [NL] @ ''bad''))
        ! (length (split_nl (trim (''*** Begin Patch'' @ [NL] @ ''bad''))) - 1) \<noteq> END_PATCH_MARKER"
    and b': "split_nl (trim (''*** Begin Patch'' @ [NL] @ ''bad'')) ! 0 = BEGIN_PATCH_MARKER"
    by code_simp+
  have c: "split_nl (trim (''*** Begin Patch'' @ [NL] @ ''*** End Patch'' @ [NL]))
       = [BEGIN_PATCH_MARKER, END_PATCH_MARKER]" by code_simp
  have 1: "isFormatError (parsePatch ''bad'')"
    using parsePatch_envelope [of "''bad''"] a by blast
  have 2: "isFormatError (parsePatch (''*** Begin Patch'' @ [NL] @ ''bad''))"
    using parsePatch_envelope [of "''*** Begin Patch'' @ [NL] @ ''bad''"] b by blast
  have 3: "parsePatch (''*** Begin Patch'' @ [NL] @ ''*** End Patch'' @ [NL]) = Some (Inr [])"
    using parsePatch_envelope [of "''*** Begin Patch'' @ [NL] @ ''*** End Patch'' @ [NL]"] c by blast
  show ?thesis using a b b' c 1 2 3 by blast
qed

lemma parseOneHunk_invalid:
  assumes "i < length lines"
      and "\<not> startsWith (trim (lines ! i)) ADD_FILE_MARKER"
      and "\<not> startsWith (trim (lines ! i)) DELETE_FILE_MARKER"
      and "\<not> startsWith (trim (lines ! i)) UPDATE_FILE_MARKER"
  shows "parseOneHunk lines i = Some (Inl (invalidHeader (trim (lines ! i))))"
  using assms by (simp add: parseOneHunk_def)

lemma hunksLoop_error:
  assumes "i < length lines - 1" and "parseOneHunk lines i = Some (Inl e)"
  shows "hunksLoop lines i hunks = Some (Inl e)"
  using assms by (simp add: hunksLoop.simps [of lines i hunks])

lemma hunksLoop_next:
  assumes "i < length lines - 1" and "parseOneHunk lines i = Some (Inr (hunk, consumed))"
  shows "hunksLoop lines i hunks = hunksLoop lines (i + consumed) (hunks @ [hunk])"
  using assms by (simp add: hunksLoop.simps [of lines i hunks])

lemma hunkPositions_reached:
  "i \<in> set (hunkPositions lines j) \<Longrightarrow> \<exists>hunks'. hunksLoop lines j hunks = hunksLoop lines i hunks'"
proof (induction lines j arbitrary: hunks rule: hunkPositions.induct)
  case (1 lines j)
  note step = hunkPositions.simps [of lines j]
  show ?case
  proof (cases "i = j")
    case True
    then show ?thesis by blast
  next
    case False
    with "1.prems" obtain hunk consumed where j: "j < length lines - 1"
      and p: "parseOneHunk lines j = Some (Inr (hunk, consumed))"
      and i: "i \<in> set (hunkPositions lines (j + consumed))"
      by (auto simp: step split: if_splits option.splits sum.splits prod.splits)
    from "1.IH" [OF j p refl refl i, of "hunks @ [hunk]"] hunksLoop_next [OF j p, of hunks]
    show ?thesis by auto
  qed
qed

text \<open>
  C7, as the code has it. The hunk parser trims the line before it looks at it. In a
  well-formed envelope, at a hunk position \<open>i\<close> whose trimmed line begins with none of
  the three header markers, \<open>parsePatch\<close> fails with the error
  \<^verbatim>\<open>Invalid hunk header: '<line>'\<close> quoting the trimmed line.
\<close>

theorem invalid_hunk_header:
  assumes "lines = split_nl (trim patch)"
      and "lines ! 0 = BEGIN_PATCH_MARKER" and "lines ! (length lines - 1) = END_PATCH_MARKER"
      and "i \<in> set (hunkPositions lines 1)"
      and "\<not> startsWith (trim (lines ! i)) ADD_FILE_MARKER"
      and "\<not> startsWith (trim (lines ! i)) DELETE_FILE_MARKER"
      and "\<not> startsWith (trim (lines ! i)) UPDATE_FILE_MARKER"
  shows "parsePatch patch =
           Some (Inl (ApplyPatchError
                       (''Invalid hunk header: '' @ QUOTE # trim (lines ! i) @ [QUOTE]) 400))"
proof -
  have inside: "k < length lines - 1" if "k \<in> set (hunkPositions lines j)" for k j
    using that
  proof (induction lines j rule: hunkPositions.induct)
    case (1 lines j)
    from "1.prems" show ?case
      using "1.IH"
      by (auto simp: hunkPositions.simps [of lines j] split: if_splits option.splits sum.splits prod.splits)
  qed
  from inside [OF assms(4)] have i: "i < length lines - 1" .
  then have "i < length lines" and n: "\<not> length lines < 2" by simp_all
  from parseOneHunk_invalid [OF this(1) assms(5-7)]
  have loop: "hunksLoop lines i hunks = Some (Inl (invalidHeader (trim (lines ! i))))" for hunks
    by (rule hunksLoop_error [OF i])
  from hunkPositions_reached [OF assms(4), of "[]"] loop
  have "hunksLoop lines 1 [] = Some (Inl (invalidHeader (trim (lines ! i))))" by auto
  moreover have "parsePatch patch = hunksLoop lines 1 []"
    unfolding parsePatch_def assms(1) [symmetric] Let_def using assms(2,3) n by simp
  ultimately show ?thesis by (simp add: invalidHeader_def createError_def)
qed

theorem invalid_hunk_header_witness:
  "split_nl (trim (''*** Begin Patch'' @ [NL] @ ''*** Delete File: a.txt'' @ [NL]
        @ ''*** Invalid Header: test.py'' @ [NL] @ ''*** End Patch''))
     = [''*** Begin Patch'', ''*** Delete File: a.txt'', ''*** Invalid Header: test.py'',
        ''*** End Patch'']
   \<and> hunkPositions [''*** Begin Patch'', ''*** Delete File: a.txt'',
        ''*** Invalid Header: test.py'', ''*** End Patch''] 1 = [1, 2]
   \<and> \<not> startsWith (trim ''*** Invalid Header: test.py'') ADD_FILE_MARKER
   \<and> \<not> startsWith (trim ''*** Invalid Header: test.py'') DELETE_FILE_MARKER
   \<and> \<not> startsWith (trim ''*** Invalid Header: test.py'') UPDATE_FILE_MARKER
   \<and> parsePatch (''*** Begin Patch'' @ [NL] @ ''*** Delete File: a.txt'' @ [NL]
        @ ''*** Invalid Header: test.py'' @ [NL] @ ''*** End Patch'')
       = Some (Inl (ApplyPatchError
            (''Invalid hunk header: '' @ QUOTE # ''*** Invalid Header: test.py'' @ [QUOTE]) 400))"
proof -
  let ?patch = "''*** Begin Patch'' @ [NL] @ ''*** Delete File: a.txt'' @ [NL]
        @ ''*** Invalid Header: test.py'' @ [NL] @ ''*** End Patch''"
  let ?lines = "[''*** Begin Patch'', ''*** Delete File: a.txt'', ''*** Invalid Header: test.py'',
        ''*** End Patch'']"
  have l: "?lines = split_nl (trim ?patch)" by code_simp
  have b: "?lines ! 0 = BEGIN_PATCH_MARKER" and e: "?lines ! (length ?lines - 1) = END_PATCH_MARKER"
    by (simp_all add: BEGIN_PATCH_MARKER_def END_PATCH_MARKER_def)
  have t: "trim ''*** Invalid Header: test.py'' = ''*** Invalid Header: test.py''" by code_simp
  have ps: "hunkPositions ?lines 1 = [1, 2]" by code_simp
  then have p: "2 \<in> set (hunkPositions ?lines 1)" by simp
  have h2: "\<not> startsWith (trim (?lines ! 2)) ADD_FILE_MARKER"
    and h3: "\<not> startsWith (trim (?lines ! 2)) DELETE_FILE_MARKER"
    and h4: "\<not> startsWith (trim (?lines ! 2)) UPDATE_FILE_MARKER"
    by code_simp+
  have "parsePatch ?patch =
          Some (Inl (ApplyPatchError
                      (''Invalid hunk header: '' @ QUOTE # trim (?lines ! 2) @ [QUOTE]) 400))"
    by (rule invalid_hunk_header [OF l b e p h2 h3 h4])
  then have r: "parsePatch ?patch =
          Some (Inl (ApplyPatchError
            (''Invalid hunk header: '' @ QUOTE # ''*** Invalid Header: test.py'' @ [QUOTE]) 400))"
    by (simp add: t)
  from h2 h3 h4 have "\<not> startsWith (trim ''*** Invalid Header: test.py'') ADD_FILE_MARKER"
    and "\<not> startsWith (trim ''*** Invalid Header: test.py'') DELETE_FILE_MARKER"
    and "\<not> startsWith (trim ''*** Invalid Header: test.py'') UPDATE_FILE_MARKER"
    by simp_all
  with l [symmetric] ps r show ?thesis by (intro conjI)
qed

text \<open>
  The line \<^verbatim>\<open>" bad"\<close> begins with no header marker, and the message quotes \<^verbatim>\<open>bad\<close>, not
  the line; the line \<^verbatim>\<open>" *** Delete File: x"\<close> begins with no header marker either, and
  is parsed as a delete hunk.
\<close>

theorem header_not_verbatim_counterexample:
  "\<not> startsWith '' bad'' ADD_FILE_MARKER \<and> \<not> startsWith '' bad'' DELETE_FILE_MARKER
   \<and> \<not> startsWith '' bad'' UPDATE_FILE_MARKER
   \<and> parsePatch (''*** Begin Patch'' @ [NL] @ '' bad'' @ [NL] @ ''*** End Patch'')
       = Some (Inl (ApplyPatchError (''Invalid hunk header: '' @ QUOTE # ''bad'' @ [QUOTE]) 400))
   \<and> parsePatch (''*** Begin Patch'' @ [NL] @ '' bad'' @ [NL] @ ''*** End Patch'')
       \<noteq> Some (Inl (ApplyPatchError (''Invalid hunk header: '' @ QUOTE # '' bad'' @ [QUOTE]) 400))
   \<and> \<not> startsWith '' *** Delete File: x'' ADD_FILE_MARKER
   \<and> \<not> startsWith '' *** Delete File: x'' DELETE_FILE_MARKER
   \<and> \<not> startsWith '' *** Delete File: x'' UPDATE_FILE_MARKER
   \<and> parsePatch (''*** Begin Patch'' @ [NL] @ '' *** Delete File: x'' @ [NL] @ ''*** End Patch'')
       = Some (Inr [Delete ''x''])"
  by code_simp

section \<open>The chunk parser: blank and unexpected lines\<close>

lemma unclassifiable_Nil: "unclassifiable []"
  by (simp add: unclassifiable_def EOF_MARKER_def startsWith_def)

lemma chunkBody_blank:
  assumes "i < length lines" and "unclassifiable (lines ! i)" and "trim (lines ! i) = []"
  shows "chunkBody lines i chunk hasContent = chunkBody lines (i + 1) (pushBoth [] chunk) True"
  using assms by (simp add: chunkBody.simps [of lines i chunk hasContent] unclassifiable_def)

lemma chunkBody_unexpected:
  assumes "i < length lines" and "unclassifiable (lines ! i)" and "trim (lines ! i) \<noteq> []"
  shows "chunkBody lines i chunk False = Inl (unexpectedLine (lines ! i))"
    and "chunkBody lines i chunk True = Inr (chunk, i)"
  using assms
  by (simp_all add: chunkBody.simps [of lines i chunk False] chunkBody.simps [of lines i chunk True]
      unclassifiable_def)

text \<open>
  C8, as the code has it. At a body line \<open>i\<close>: a line without characters, and any
  unclassifiable line that trimming leaves empty, is appended as the empty string to both
  the old and the new lines, and the loop goes on behind it with the content flag set; an
  unclassifiable line that trimming does not leave empty fails with
  \<^verbatim>\<open>Unexpected line in update hunk: '<line>'\<close> when the chunk has no content yet, and
  otherwise ends the chunk at index \<open>i\<close>, the line not consumed.
\<close>

theorem chunk_body_blank_and_unexpected:
  assumes "i < length lines"
  shows "(lines ! i = [] \<or> (unclassifiable (lines ! i) \<and> trim (lines ! i) = []) \<longrightarrow>
            chunkBody lines i chunk hasContent =
              chunkBody lines (i + 1)
                (chunk\<lparr>oldLines := oldLines chunk @ [[]], newLines := newLines chunk @ [[]]\<rparr>) True)
       \<and> (unclassifiable (lines ! i) \<and> trim (lines ! i) \<noteq> [] \<longrightarrow>
            chunkBody lines i chunk False =
              Inl (ApplyPatchError
                    (''Unexpected line in update hunk: '' @ QUOTE # lines ! i @ [QUOTE]) 400)
            \<and> chunkBody lines i chunk True = Inr (chunk, i))"
proof (intro conjI impI)
  assume "lines ! i = [] \<or> (unclassifiable (lines ! i) \<and> trim (lines ! i) = [])"
  then have "unclassifiable (lines ! i) \<and> trim (lines ! i) = []"
    using unclassifiable_Nil by (auto simp: trim_def)
  then show "chunkBody lines i chunk hasContent =
              chunkBody lines (i + 1)
                (chunk\<lparr>oldLines := oldLines chunk @ [[]], newLines := newLines chunk @ [[]]\<rparr>) True"
    using chunkBody_blank [OF assms, of chunk hasContent] by (simp add: pushBoth_def)
next
  assume a: "unclassifiable (lines ! i) \<and> trim (lines ! i) \<noteq> []"
  then show "chunkBody lines i chunk False =
              Inl (ApplyPatchError
                    (''Unexpected line in update hunk: '' @ QUOTE # lines ! i @ [QUOTE]) 400)"
    using chunkBody_unexpected(1) [OF assms, of chunk]
    by (simp add: unexpectedLine_def createError_def)
  from a show "chunkBody lines i chunk True = Inr (chunk, i)"
    using chunkBody_unexpected(2) [OF assms, of chunk] by simp
qed

theorem chunk_body_blank_and_unexpected_witness:
  "(0 :: nat) < length [''oops'', ''*** End Patch'']
   \<and> unclassifiable ([''oops'', ''*** End Patch''] ! 0) \<and> trim ([''oops'', ''*** End Patch''] ! 0) \<noteq> []
   \<and> chunkBody [''oops'', ''*** End Patch''] 0 (emptyChunk None) False
       = Inl (ApplyPatchError (''Unexpected line in update hunk: '' @ QUOTE # ''oops'' @ [QUOTE]) 400)
   \<and> chunkBody [''oops'', ''*** End Patch''] 0 (emptyChunk None) True = Inr (emptyChunk None, 0)
   \<and> (0 :: nat) < length [[], ''*** End Patch''] \<and> [[], ''*** End Patch''] ! 0 = []
   \<and> chunkBody [[], ''*** End Patch''] 0 (emptyChunk None) False
       = Inr (\<lparr>changeContext = None, oldLines = [[]], newLines = [[]], isEndOfFile = False\<rparr>, 1)"
proof -
  let ?l1 = "[''oops'', ''*** End Patch'']"
  let ?l2 = "[[], ''*** End Patch'']"
  have h1: "(0 :: nat) < length ?l1" and h2: "(0 :: nat) < length ?l2" by simp_all
  have u: "unclassifiable (?l1 ! 0) \<and> trim (?l1 ! 0) \<noteq> []" by code_simp
  have b: "?l2 ! 0 = [] \<or> (unclassifiable (?l2 ! 0) \<and> trim (?l2 ! 0) = [])" by simp
  have a: "chunkBody ?l1 0 (emptyChunk None) False =
             Inl (ApplyPatchError (''Unexpected line in update hunk: '' @ QUOTE # ?l1 ! 0 @ [QUOTE]) 400)
           \<and> chunkBody ?l1 0 (emptyChunk None) True = Inr (emptyChunk None, 0)"
    by (rule chunk_body_blank_and_unexpected [OF h1, THEN conjunct2, rule_format, OF u])
  have c: "chunkBody ?l2 0 (emptyChunk None) False =
             chunkBody ?l2 (0 + 1)
               ((emptyChunk None)\<lparr>oldLines := oldLines (emptyChunk None) @ [[]],
                                   newLines := newLines (emptyChunk None) @ [[]]\<rparr>) True"
    by (rule chunk_body_blank_and_unexpected [OF h2, THEN conjunct1, rule_format, OF b])
  have d: "chunkBody ?l2 (0 + 1)
               ((emptyChunk None)\<lparr>oldLines := oldLines (emptyChunk None) @ [[]],
                                   newLines := newLines (emptyChunk None) @ [[]]\<rparr>) True
           = Inr (\<lparr>changeContext = None, oldLines = [[]], newLines = [[]], isEndOfFile = False\<rparr>, 1)"
    by code_simp
  show ?thesis using u a c d by simp
qed

text \<open>
  A line holding one TAB is not wholly blank and is unclassifiable; as the first body
  line of a chunk it is not rejected: it becomes an empty line of the chunk.
\<close>

theorem whitespace_line_counterexample:
  "[CHR 0x09] \<noteq> [] \<and> unclassifiable [CHR 0x09]
   \<and> chunkBody [''@@'', [CHR 0x09], ''*** End Patch''] 1 (emptyChunk None) False
       = Inr (\<lparr>changeContext = None, oldLines = [[]], newLines = [[]], isEndOfFile = False\<rparr>, 2)
   \<and> parsePatch (''*** Begin Patch'' @ [NL] @ ''*** Update File: f.txt'' @ [NL] @ ''@@'' @ [NL]
         @ [CHR 0x09] @ [NL] @ ''*** End Patch'')
       = Some (Inr [Update ''f.txt'' None
           [\<lparr>changeContext = None, oldLines = [[]], newLines = [[]], isEndOfFile = False\<rparr>]])"
  by code_simp

section \<open>Termination of the parser\<close>

text \<open>
  At a line where the loop over the chunks calls it, and that is no stray context line,
  the chunk parser consumes at least one line whenever it returns a chunk. So on an input
  without stray context lines the loop over the chunks returns, and \<open>parsePatch\<close> returns:
  a list of operations or an error.
\<close>

lemma chunkBody_ge:
  "chunkBody lines i chunk hasContent = Inr (chunk', i') \<Longrightarrow> i \<le> i'"
proof (induction lines i chunk hasContent rule: chunkBody.induct)
  case (1 lines i chunk hasContent)
  note step = chunkBody.simps [of lines i chunk hasContent]
  show ?case
  proof (cases "i < length lines")
    case False
    with "1.prems" show ?thesis by (simp add: step)
  next
    case True
    from "1.prems"(1) True show ?thesis
      using "1.IH"(1) [OF True] "1.IH"(2) [OF True] "1.IH"(3) [OF True] "1.IH"(4) [OF True]
      by (auto simp: step split: if_splits dest: Suc_leD)
  qed
qed

lemma chunkBody_first:
  assumes "chunkBody lines i chunk False = Inr (chunk', i')" and "i < length lines"
      and "\<not> startsWith (lines ! i) ''***''" and "\<not> startsWith (lines ! i) ''@@''"
  shows "i < i'"
proof -
  from assms(3) have neof: "lines ! i \<noteq> EOF_MARKER"
    by (auto simp: EOF_MARKER_def startsWith_def)
  from assms(1,2,3,4) neof show ?thesis
    by (auto simp: chunkBody.simps [of lines i chunk False] split: if_splits
        dest!: chunkBody_ge)
qed

lemma parseUpdateFileChunk_progress:
  assumes "parseUpdateFileChunk lines i = Inr (chunk, consumed)" and "i < length lines"
      and "\<not> startsWith (lines ! i) ''***''" and "\<not> strayContextLine (lines ! i)"
  shows "1 \<le> consumed"
proof (cases "lines ! i = EMPTY_CHANGE_CONTEXT_MARKER \<or> startsWith (lines ! i) CHANGE_CONTEXT_MARKER")
  case True
  with assms(1,2) obtain ctx i' where "chunkBody lines (i + 1) (emptyChunk ctx) False = Inr (chunk, i')"
    and "consumed = i' - i"
    by (auto simp: parseUpdateFileChunk_def split: if_splits sum.splits prod.splits)
  with chunkBody_ge [of lines "i + 1" "emptyChunk ctx" False chunk i'] show ?thesis by simp
next
  case False
  with assms(4) have na: "\<not> startsWith (lines ! i) ''@@''" by (auto simp: strayContextLine_def)
  from False assms(1,2) obtain i' where b: "chunkBody lines i (emptyChunk None) False = Inr (chunk, i')"
    and "consumed = i' - i"
    by (auto simp: parseUpdateFileChunk_def split: if_splits sum.splits prod.splits)
  with chunkBody_first [OF b assms(2,3) na] show ?thesis by simp
qed

lemma chunksLoop_returns:
  assumes "\<forall>l \<in> set lines. \<not> strayContextLine l"
  shows "\<exists>r. chunksLoop lines i chunks = Some r"
proof (induction "length lines - i" arbitrary: i chunks rule: less_induct)
  case less
  show ?case
  proof (cases "i < length lines \<and> \<not> startsWith (lines ! i) ''***''")
    case False
    then show ?thesis by (subst chunksLoop.simps) auto
  next
    case True
    then have i: "i < length lines" and ns: "\<not> startsWith (lines ! i) ''***''" by simp_all
    from i assms have nstray: "\<not> strayContextLine (lines ! i)" by simp
    show ?thesis
    proof (cases "trim (lines ! i) = []")
      case blank: True
      from i have "length lines - (i + 1) < length lines - i" by simp
      from less [OF this, of chunks] obtain r where "chunksLoop lines (i + 1) chunks = Some r" by blast
      with True blank show ?thesis by (subst chunksLoop.simps) simp
    next
      case nb: False
      show ?thesis
      proof (cases "parseUpdateFileChunk lines i")
        case (Inl e)
        with True nb show ?thesis by (subst chunksLoop.simps) simp
      next
        case (Inr p)
        obtain chunk consumed where p: "p = (chunk, consumed)" by (cases p)
        from parseUpdateFileChunk_progress [OF Inr [unfolded p] i ns nstray] i
        have "length lines - (i + consumed) < length lines - i" by simp
        from less [OF this, of "chunks @ [chunk]"]
        obtain r where "chunksLoop lines (i + consumed) (chunks @ [chunk]) = Some r" by blast
        with True nb Inr p show ?thesis by (subst chunksLoop.simps) simp
      qed
    qed
  qed
qed

lemma parseOneHunk_returns:
  assumes "\<forall>l \<in> set lines. \<not> strayContextLine l"
  shows "\<exists>r. parseOneHunk lines startIndex = Some r"
proof -
  from chunksLoop_returns [OF assms] obtain r1 r2
    where "chunksLoop lines (startIndex + 1) [] = Some r1"
      and "chunksLoop lines (startIndex + 2) [] = Some r2" by blast
  then show ?thesis
    by (auto simp: parseOneHunk_def Let_def split: prod.splits option.splits sum.splits)
qed

lemma hunksLoop_returns:
  "\<forall>l \<in> set lines. \<not> strayContextLine l \<Longrightarrow> \<exists>r. hunksLoop lines i hunks = Some r"
proof (induction lines i hunks rule: hunksLoop.induct)
  case (1 lines i hunks)
  note step = hunksLoop.simps [of lines i hunks]
  show ?case
  proof (cases "i < length lines - 1")
    case False
    then show ?thesis by (simp add: step)
  next
    case True
    from parseOneHunk_returns [OF "1.prems"] obtain r where r: "parseOneHunk lines i = Some r" by blast
    show ?thesis
    proof (cases r)
      case (Inl e)
      with True r show ?thesis by (simp add: step)
    next
      case (Inr p)
      obtain hunk consumed where p: "p = (hunk, consumed)" by (cases p)
      from "1.IH" [OF True r Inr p [symmetric] "1.prems"] True r Inr p show ?thesis
        by (simp add: step)
    qed
  qed
qed

lemma parsePatch_returns:
  assumes "\<forall>l \<in> set (split_nl (trim patch)). \<not> strayContextLine l"
  shows "\<exists>r. parsePatch patch = Some r"
  using hunksLoop_returns [OF assms, of 1 "[]"] by (auto simp: parsePatch_def Let_def)

text \<open>
  When the chunk parser returns a chunk and zero lines consumed at a line that the loop
  over the chunks neither stops at nor skips, the loop calls it again at the same index,
  for ever.
\<close>

lemma chunksLoop_stuck:
  assumes "i < length lines" and "\<not> startsWith (lines ! i) ''***''" and "trim (lines ! i) \<noteq> []"
      and "parseUpdateFileChunk lines i = Inr (chunk, 0)"
  shows "chunksLoop lines i chunks = None"
proof (rule ccontr)
  assume "chunksLoop lines i chunks \<noteq> None"
  then obtain r where r: "chunksLoop lines i chunks = Some r" by auto
  have "\<not> (lines' = lines \<and> i' = i)" if "chunksLoop lines' i' chunks' = Some r'" for lines' i' chunks' r'
    apply (rule chunksLoop.raw_induct
        [where P = "\<lambda>lines' i' chunks' r'. \<not> (lines' = lines \<and> i' = i)", OF _ that])
    subgoal premises prems for f lines' i' chunks' r'
    proof
      assume eq: "lines' = lines \<and> i' = i"
      from prems(2) eq assms have "f lines i (chunks' @ [chunk]) = Some r'" by simp
      from prems(1) [OF this] show False by simp
    qed
    done
  from this [OF r] show False by simp
qed

lemma hunksLoop_diverges:
  assumes "i < length lines - 1" and "parseOneHunk lines i = None"
  shows "hunksLoop lines i hunks = None"
  using assms by (simp add: hunksLoop.simps [of lines i hunks])

text \<open>
  C10 fails on the code. A line that starts with \<^verbatim>\<open>@@\<close> but is neither \<^verbatim>\<open>@@\<close> itself
  nor starts with \<^verbatim>\<open>"@@ "\<close> is not taken as a context marker, and ends the body at
  once: the chunk parser returns an empty chunk and has consumed nothing. On this patch
  \<open>parsePatch\<close> does not return.
\<close>

theorem parsePatch_diverges:
  "parseUpdateFileChunk
     [''*** Begin Patch'', ''*** Update File: a.txt'', ''@@foo'', ''*** End Patch''] 2
     = Inr (\<lparr>changeContext = None, oldLines = [], newLines = [], isEndOfFile = False\<rparr>, 0)
   \<and> parsePatch (''*** Begin Patch'' @ [NL] @ ''*** Update File: a.txt'' @ [NL] @ ''@@foo'' @ [NL]
         @ ''*** End Patch'') = None"
proof -
  let ?lines = "[''*** Begin Patch'', ''*** Update File: a.txt'', ''@@foo'', ''*** End Patch'']"
  let ?patch = "''*** Begin Patch'' @ [NL] @ ''*** Update File: a.txt'' @ [NL] @ ''@@foo'' @ [NL]
         @ ''*** End Patch''"
  have c: "parseUpdateFileChunk ?lines 2
     = Inr (\<lparr>changeContext = None, oldLines = [], newLines = [], isEndOfFile = False\<rparr>, 0)"
    by code_simp
  have "(2 :: nat) < length ?lines" and "\<not> startsWith (?lines ! 2) ''***''" and "trim (?lines ! 2) \<noteq> []"
    by code_simp+
  then have stuck: "chunksLoop ?lines 2 [] = None"
    using c by (intro chunksLoop_stuck)
  have l: "split_nl (trim ?patch) = ?lines" by code_simp
  have m: "\<not> (1 + 1 < length ?lines \<and> startsWith (?lines ! (1 + 1)) MOVE_TO_MARKER)"
    and u: "startsWith (trim (?lines ! 1)) UPDATE_FILE_MARKER"
    and na: "\<not> startsWith (trim (?lines ! 1)) ADD_FILE_MARKER"
    and nd: "\<not> startsWith (trim (?lines ! 1)) DELETE_FILE_MARKER"
    by code_simp+
  from stuck have stuck': "chunksLoop ?lines (Suc (Suc 0)) [] = None"
    by (simp add: numeral_2_eq_2)
  have one: "parseOneHunk ?lines 1 = None"
    unfolding parseOneHunk_def using m u na nd stuck' by (simp add: Let_def)
  have "hunksLoop ?lines 1 [] = None"
    by (rule hunksLoop_diverges [OF _ one]) simp
  then have "parsePatch ?patch = None"
    unfolding parsePatch_def l by (simp add: Let_def BEGIN_PATCH_MARKER_def END_PATCH_MARKER_def)
  with c show ?thesis by simp
qed

end
